theory Spec2Isabelle
  imports Main
begin

section \<open>Errors\<close>

text \<open>
  Every exception the modelled Python code can raise is a value. A computation that may
  raise has the result type \<open>error + 'a\<close>, with \<open>Inl\<close> for the exception. \<open>Unsupported\<close> is
  no exception of Python: it is the result of running a construct that the evaluation
  of rewritten programs, further down, does not cover.
\<close>

datatype error =
    KeyError string
  | NameError string
  | TypeError string
  | NetworkXError
  | AssertionError
  | RuntimeError
  | RecursionError
  | AttributeError string
  | ValueError string
  | Unsupported string

definition bind :: "error + 'a \<Rightarrow> ('a \<Rightarrow> error + 'b) \<Rightarrow> error + 'b" where
  "bind m f = (case m of Inl e \<Rightarrow> Inl e | Inr x \<Rightarrow> f x)"

section \<open>The syntax trees rewritten by \<open>ast_tracer.py\<close>\<close>

text \<open>
  The nodes of Python's \<open>ast\<close> module that the transformer inspects are constructors of
  their own; every other expression node is \<open>OtherExpr\<close>, with its class name and its child
  expressions, and every other statement is \<open>OtherStmt\<close>. A \<open>Call\<close> carries the fields
  \<open>func\<close>, \<open>args\<close>, \<open>keywords\<close> and, as Python 3.4 and lower have them, \<open>starargs\<close> and
  \<open>kwargs\<close>. A keyword is the pair of \<open>arg\<close> (absent for \<open>**kw\<close>) and \<open>value\<close>.
\<close>

datatype expr_context = Load | Store | Del

datatype expr =
    Name string expr_context
  | Num int
  | Str string
  | NameConstant "bool option"
  | Attribute expr string expr_context
  | Subscript expr expr expr_context
  | Starred expr expr_context
  | Tuple "expr list" expr_context
  | List "expr list" expr_context
  | Call expr "expr list" "(string option \<times> expr) list" "expr option" "expr option"
  | OtherExpr string "expr list"

datatype stmt =
    Assign "expr list" expr
  | Delete "expr list"
  | Expr expr
  | OtherStmt string "expr list"

subsection \<open>The helpers of \<open>ast_transform\<close>\<close>

text \<open>
  Modelled from the spec: the module \<open>ast_transform\<close> (\<open>to_attribute\<close>, \<open>to_call\<close>,
  \<open>to_name\<close>, \<open>to_name_constant\<close>, \<open>to_list\<close>, \<open>to_tuple\<close>) is imported by
  \<open>ast_tracer.py\<close> and is not among the source files. Each helper builds the node its
  name says, in a \<open>Load\<close> context, as the rewritten forms in the docstrings of
  \<open>visit_Call\<close>, \<open>visit_Name\<close>, \<open>visit_Assign\<close> and \<open>visit_Delete\<close> show.
\<close>

definition to_name :: "string \<Rightarrow> expr" where
  "to_name ident = Name ident Load"

definition to_attribute :: "expr \<Rightarrow> string \<Rightarrow> expr" where
  "to_attribute v attr = Attribute v attr Load"

definition to_call ::
  "expr \<Rightarrow> expr list \<Rightarrow> (string option \<times> expr) list \<Rightarrow> expr option \<Rightarrow> expr option \<Rightarrow> expr" where
  "to_call func args keywords starargs kwargs = Call func args keywords starargs kwargs"

definition to_name_constant :: "bool \<Rightarrow> expr" where
  "to_name_constant b = NameConstant (Some b)"

definition to_list :: "expr list \<Rightarrow> expr" where
  "to_list elts = List elts Load"

definition to_tuple :: "expr list \<Rightarrow> expr" where
  "to_tuple elts = Tuple elts Load"

subsection \<open>\<open>ASTTraceTransformer\<close>\<close>

text \<open>
  \<open>self.tracer\<close> is the parameter \<open>tr\<close> (the node \<open>to_name tracer\<close>), and the module's flag
  \<open>ast_has_starred\<close> is the parameter \<open>hs\<close>. The dictionary \<open>self._state\<close> is read with
  \<open>get(key, False)\<close> at two keys only, so it is the pair of booleans \<open>boxed\<close> and
  \<open>multiple_values\<close>: \<open>visit\<close> clears it (both \<open>False\<close>) and \<open>visit_with_state\<close> sets it
  before dispatching.
\<close>

definition tracer_method :: "expr \<Rightarrow> string \<Rightarrow> bool \<Rightarrow> expr" where
  "tracer_method tr method private =
     to_attribute tr (if private then CHR ''_'' # method else method)"

text \<open>
  \<open>visit_state tr hs boxed multiple_values node\<close> is the dispatch of
  \<open>NodeVisitor.visit\<close> on an expression with \<open>self._state\<close> as given: \<open>visit_Call\<close> for a
  \<open>Call\<close>, \<open>visit_Name\<close> for a \<open>Name\<close>, and \<open>generic_visit\<close> otherwise, which visits every
  child with a cleared state. \<open>visit_argument\<close> is the method of the same name.
\<close>

fun visit_state :: "expr \<Rightarrow> bool \<Rightarrow> bool \<Rightarrow> bool \<Rightarrow> expr \<Rightarrow> expr"
and visit_argument :: "expr \<Rightarrow> bool \<Rightarrow> expr \<Rightarrow> string option \<Rightarrow> nat \<Rightarrow> expr"
where
  "visit_state tr hs boxed multiple_values (Call func args keywords starargs kwargs) =
     (let func' = visit_state tr hs False False func;
          args' = map (\<lambda>arg. visit_argument tr hs arg None 0) args;
          keywords' = map (\<lambda>(arg, v). (arg,
                        visit_argument tr hs v arg (if arg = None then 2 else 0)))
                      keywords;
          nargs = length args' + length keywords';
          starargs' = (if \<not> hs then map_option (\<lambda>a. visit_argument tr hs a None 1) starargs
                       else None);
          nargs = (if \<not> hs \<and> starargs \<noteq> None then nargs + 1 else nargs);
          kwargs' = (if \<not> hs then map_option (\<lambda>a. visit_argument tr hs a None 2) kwargs
                     else None);
          nargs = (if \<not> hs \<and> kwargs \<noteq> None then nargs + 1 else nargs)
      in to_call (tracer_method tr ''trace_return'' boxed)
           [to_call (to_call (tracer_method tr ''trace_function'' False)
                       [func', Num (int nargs)] [] None None)
                    args' keywords' starargs' kwargs',
            to_name_constant multiple_values] [] None None)"
| "visit_state tr hs boxed multiple_values (Name ident ctx) =
     (if ctx = Load
      then to_call (tracer_method tr ''trace_access'' boxed) [Str ident, Name ident ctx] [] None None
      else Name ident ctx)"
| "visit_state tr hs boxed multiple_values (Num n) = Num n"
| "visit_state tr hs boxed multiple_values (Str s) = Str s"
| "visit_state tr hs boxed multiple_values (NameConstant c) = NameConstant c"
| "visit_state tr hs boxed multiple_values (Attribute v attr ctx) =
     Attribute (visit_state tr hs False False v) attr ctx"
| "visit_state tr hs boxed multiple_values (Subscript v slice ctx) =
     Subscript (visit_state tr hs False False v) (visit_state tr hs False False slice) ctx"
| "visit_state tr hs boxed multiple_values (Starred v ctx) =
     Starred (visit_state tr hs False False v) ctx"
| "visit_state tr hs boxed multiple_values (Tuple elts ctx) =
     Tuple (map (visit_state tr hs False False) elts) ctx"
| "visit_state tr hs boxed multiple_values (List elts ctx) =
     List (map (visit_state tr hs False False) elts) ctx"
| "visit_state tr hs boxed multiple_values (OtherExpr cls children) =
     OtherExpr cls (map (visit_state tr hs False False) children)"
| "visit_argument tr hs (Starred v ctx) arg_name nstars =
     (if hs
      then Starred (to_call (tracer_method tr ''trace_argument'' False)
                      ([visit_state tr hs True False v] @
                       (case arg_name of Some n \<Rightarrow> (if n \<noteq> [] then [Str n] else [])
                        | None \<Rightarrow> []))
                      [(Some ''nstars'', Num 1)] None None) Load
      else to_call (tracer_method tr ''trace_argument'' False)
             ([visit_state tr hs True False (Starred v ctx)] @
              (case arg_name of Some n \<Rightarrow> (if n \<noteq> [] then [Str n] else []) | None \<Rightarrow> []))
             (if nstars \<noteq> 0 then [(Some ''nstars'', Num (int nstars))] else []) None None)"
| "visit_argument tr hs arg_value arg_name nstars =
     to_call (tracer_method tr ''trace_argument'' False)
       ([visit_state tr hs True False arg_value] @
        (case arg_name of Some n \<Rightarrow> (if n \<noteq> [] then [Str n] else []) | None \<Rightarrow> []))
       (if nstars \<noteq> 0 then [(Some ''nstars'', Num (int nstars))] else []) None None"

definition visit :: "expr \<Rightarrow> bool \<Rightarrow> expr \<Rightarrow> expr" where
  "visit tr hs node = visit_state tr hs False False node"

definition visit_with_state :: "expr \<Rightarrow> bool \<Rightarrow> expr \<Rightarrow> bool \<Rightarrow> bool \<Rightarrow> expr" where
  "visit_with_state tr hs node boxed multiple_values =
     visit_state tr hs boxed multiple_values node"

text \<open>
  \<open>target_to_literal\<close>: a \<open>Name\<close> gives its identifier as a string literal and a \<open>Tuple\<close>
  the tuple of its elements' literals. For every other node the third test of the chain,
  \<open>isinstance(target, ast.List)\<close>, is evaluated: it reads the name \<open>target\<close>, which is
  neither a local of the method (its parameters are \<open>self\<close> and \<open>node\<close>) nor a global of
  the module, so the test raises \<open>NameError\<close> before the \<open>List\<close> branch or the
  \<open>raise TypeError\<close> of the last branch can run.
\<close>

fun target_to_literal :: "expr \<Rightarrow> error + expr"
and targets_to_literals :: "expr list \<Rightarrow> error + expr list"
where
  "target_to_literal (Name ident ctx) = Inr (Str ident)"
| "target_to_literal (Tuple elts ctx) =
     (case targets_to_literals elts of Inl e \<Rightarrow> Inl e | Inr lits \<Rightarrow> Inr (to_tuple lits))"
| "target_to_literal node = Inl (NameError ''target'')"
| "targets_to_literals [] = Inr []"
| "targets_to_literals (t # ts) =
     (case target_to_literal t of
        Inl e \<Rightarrow> Inl e
      | Inr l \<Rightarrow> (case targets_to_literals ts of Inl e \<Rightarrow> Inl e | Inr ls \<Rightarrow> Inr (l # ls)))"

text \<open>
  \<open>ast.literal_eval\<close> of the list built by \<open>to_list\<close> gives a \<open>str\<close> for a \<open>Str\<close> element
  and a tuple or a list for any other, so \<open>not isinstance(t, str)\<close> is \<open>\<not> is_Str\<close> of
  the literal.
\<close>

fun is_Str :: "expr \<Rightarrow> bool" where
  "is_Str (Str s) = True"
| "is_Str node = False"

definition visit_Assign :: "expr \<Rightarrow> bool \<Rightarrow> expr list \<Rightarrow> expr \<Rightarrow> error + stmt" where
  "visit_Assign tr hs targets val =
     bind (targets_to_literals targets) (\<lambda>lits.
       let targets_literal = to_list lits;
           multiple_values = list_ex (\<lambda>t. \<not> is_Str t) lits
       in Inr (Assign targets
                (to_call (tracer_method tr ''trace_assign'' False)
                   [targets_literal, visit_with_state tr hs val True multiple_values]
                   [] None None)))"

fun name_ids :: "expr list \<Rightarrow> string list" where
  "name_ids [] = []"
| "name_ids (Name ident ctx # ns) = ident # name_ids ns"
| "name_ids (n # ns) = name_ids ns"

text \<open>
  \<open>visit_Delete\<close> first runs \<open>generic_visit\<close>, which replaces every target by its visit,
  then collects the identifiers of the targets that are \<open>Name\<close> nodes.
\<close>

definition visit_Delete :: "expr \<Rightarrow> bool \<Rightarrow> expr list \<Rightarrow> stmt list" where
  "visit_Delete tr hs targets =
     (let targets' = map (visit tr hs) targets;
          names = name_ids targets';
          names_node = to_list (map Str names)
      in [Expr (to_call (tracer_method tr ''trace_delete'' False) [names_node] [] None None),
          Delete targets'])"

text \<open>
  The visit of a statement: \<open>visit_Assign\<close>, \<open>visit_Delete\<close>, or \<open>generic_visit\<close>. The
  result is the list of statements that replaces the statement in its body.
\<close>

fun visit_stmt :: "expr \<Rightarrow> bool \<Rightarrow> stmt \<Rightarrow> error + stmt list" where
  "visit_stmt tr hs (Assign targets val) =
     bind (visit_Assign tr hs targets val) (\<lambda>node. Inr [node])"
| "visit_stmt tr hs (Delete targets) = Inr (visit_Delete tr hs targets)"
| "visit_stmt tr hs (Expr e) = Inr [Expr (visit tr hs e)]"
| "visit_stmt tr hs (OtherStmt cls children) = Inr [OtherStmt cls (map (visit tr hs) children)]"

text \<open>The targets the rewriter is documented to accept: names and nested sequences of names.\<close>

fun name_sequence :: "expr \<Rightarrow> bool" where
  "name_sequence (Name ident ctx) = True"
| "name_sequence (Tuple elts ctx) = list_all name_sequence elts"
| "name_sequence (List elts ctx) = list_all name_sequence elts"
| "name_sequence node = False"

text \<open>
  The targets of a parsed \<open>del\<close> statement carry the \<open>Del\<close> context; a \<open>Name\<close> in a
  \<open>Load\<close> context is a read and cannot stand there.
\<close>

fun parsed_del_target :: "expr \<Rightarrow> bool" where
  "parsed_del_target (Name ident ctx) = (ctx = Del)"
| "parsed_del_target node = True"

section \<open>Flow graphs\<close>

text \<open>
  A flow graph is a \<open>networkx.MultiDiGraph\<close>. Its dictionaries become the fields of a
  datatype: \<open>graph.graph\<close> is read at the keys \<open>input_node\<close> and \<open>output_node\<close> only;
  \<open>nodes\<close> lists the nodes with their attribute dictionaries in insertion order; \<open>edges\<close>
  lists the edges \<open>(u, v, key, data)\<close> in insertion order. The attribute dictionary of an
  edge is the record \<open>data\<close>: a field is \<open>None\<close> when the key is absent, and \<open>other\<close>
  holds the keys the module never names. The attribute dictionary of a node holds the
  nested flow graph of a composite node under \<open>graph\<close> (here \<open>nested\<close>), the port table
  of the outer box under \<open>ports\<close>, and any other keys in \<open>attrs\<close>.
  Object identities (the values of \<open>id\<close>, here \<open>id_of\<close>) are natural numbers.
\<close>

type_synonym node = string

record data =
  id_of :: "nat option"
  sourceport :: "string option"
  targetport :: "string option"
  annotation :: "string option"
  other :: "(string \<times> string) list"

type_synonym edge = "node \<times> node \<times> nat \<times> data"

record port_data =
  portkind :: string
  port_annotation :: "string option"

datatype flow_graph =
  MultiDiGraph
    (graph_input: "node option")
    (graph_output: "node option")
    (nodes: "(node \<times> node_data) list")
    (edges: "edge list")
and node_data =
  NodeData
    (nested: "flow_graph option")
    (node_ports: "(string \<times> port_data) list option")
    (attrs: "(string \<times> string) list")

subsection \<open>The operations of \<open>networkx.MultiDiGraph\<close> that the module calls\<close>

text \<open>
  \<open>networkx\<close> is a library, not part of the repository: these definitions follow the
  behaviour of networkx 2 (\<open>setup.py\<close> requires \<open>networkx>=2.0\<close>). Iterating
  \<open>out_edges\<close>, \<open>in_edges\<close> or \<open>edges\<close> reads the list of edges from the front;
  \<open>graph.copy()\<close> gives an equal graph, so it is the identity on values.
\<close>

definition set_nodes :: "flow_graph \<Rightarrow> (node \<times> node_data) list \<Rightarrow> flow_graph" where
  "set_nodes g ns = MultiDiGraph (graph_input g) (graph_output g) ns (edges g)"

definition set_edges :: "flow_graph \<Rightarrow> edge list \<Rightarrow> flow_graph" where
  "set_edges g es = MultiDiGraph (graph_input g) (graph_output g) (nodes g) es"

definition empty_data :: node_data where
  "empty_data = NodeData None None []"

definition has_node :: "flow_graph \<Rightarrow> node \<Rightarrow> bool" where
  "has_node g n = (n \<in> fst ` set (nodes g))"

fun dict_set :: "'k \<Rightarrow> 'v \<Rightarrow> ('k \<times> 'v) list \<Rightarrow> ('k \<times> 'v) list" where
  "dict_set k v [] = [(k, v)]"
| "dict_set k v ((k', v') # kvs) =
     (if k = k' then (k', v) # kvs else (k', v') # dict_set k v kvs)"

definition dict_update :: "('k \<times> 'v) list \<Rightarrow> ('k \<times> 'v) list \<Rightarrow> ('k \<times> 'v) list" where
  "dict_update d new = fold (\<lambda>(k, v). dict_set k v) new d"

text \<open>\<open>dict.update\<close> on the attribute dictionary of a node: the keys present in \<open>new\<close> win.\<close>

definition update_node_data :: "node_data \<Rightarrow> node_data \<Rightarrow> node_data" where
  "update_node_data old new =
     NodeData (case nested new of Some h \<Rightarrow> Some h | None \<Rightarrow> nested old)
              (case node_ports new of Some p \<Rightarrow> Some p | None \<Rightarrow> node_ports old)
              (dict_update (attrs old) (attrs new))"

text \<open>\<open>add_node(n, **d)\<close>: a new node is appended, a known node has its attributes updated.\<close>

fun add_node_list :: "node \<Rightarrow> node_data \<Rightarrow> (node \<times> node_data) list \<Rightarrow> (node \<times> node_data) list" where
  "add_node_list n d [] = [(n, update_node_data empty_data d)]"
| "add_node_list n d ((n', d') # ns) =
     (if n = n' then (n', update_node_data d' d) # ns else (n', d') # add_node_list n d ns)"

definition add_node :: "flow_graph \<Rightarrow> node \<Rightarrow> node_data \<Rightarrow> flow_graph" where
  "add_node g n d = set_nodes g (add_node_list n d (nodes g))"

text \<open>
  \<open>new_edge_key(u, v)\<close>: the number of edges from \<open>u\<close> to \<open>v\<close>, increased while it is the
  key of one of them. At most \<open>length keys\<close> increments are needed.
\<close>

fun free_key :: "nat list \<Rightarrow> nat \<Rightarrow> nat \<Rightarrow> nat" where
  "free_key keys k 0 = k"
| "free_key keys k (Suc fuel) = (if k \<in> set keys then free_key keys (Suc k) fuel else k)"

definition keys_between :: "edge list \<Rightarrow> node \<Rightarrow> node \<Rightarrow> nat list" where
  "keys_between es u v = map (\<lambda>(u', v', k, d). k) (filter (\<lambda>(u', v', k, d). u' = u \<and> v' = v) es)"

definition new_edge_key :: "flow_graph \<Rightarrow> node \<Rightarrow> node \<Rightarrow> nat" where
  "new_edge_key g u v =
     (let keys = keys_between (edges g) u v in free_key keys (length keys) (length keys))"

text \<open>
  \<open>add_edge(u, v, **d)\<close> with no key given: the end points are added as nodes when they
  are unknown, and the edge is stored under a new key.
\<close>

definition add_edge :: "flow_graph \<Rightarrow> node \<Rightarrow> node \<Rightarrow> data \<Rightarrow> flow_graph" where
  "add_edge g u v d =
     (let g1 = (if has_node g u then g else add_node g u empty_data);
          g2 = (if has_node g1 v then g1 else add_node g1 v empty_data)
      in set_edges g2 (edges g2 @ [(u, v, new_edge_key g2 u v, d)]))"

definition remove_edge :: "flow_graph \<Rightarrow> node \<Rightarrow> node \<Rightarrow> nat \<Rightarrow> error + flow_graph" where
  "remove_edge g u v k =
     (if list_ex (\<lambda>(u', v', k', d). u' = u \<and> v' = v \<and> k' = k) (edges g)
      then Inr (set_edges g (filter (\<lambda>(u', v', k', d). \<not> (u' = u \<and> v' = v \<and> k' = k)) (edges g)))
      else Inl NetworkXError)"

definition remove_node :: "flow_graph \<Rightarrow> node \<Rightarrow> error + flow_graph" where
  "remove_node g n =
     (if has_node g n
      then Inr (MultiDiGraph (graph_input g) (graph_output g)
                  (filter (\<lambda>(n', d). n' \<noteq> n) (nodes g))
                  (filter (\<lambda>(u, v, k, d). u \<noteq> n \<and> v \<noteq> n) (edges g)))
      else Inl NetworkXError)"

definition out_edges :: "flow_graph \<Rightarrow> node \<Rightarrow> edge list" where
  "out_edges g n = filter (\<lambda>(u, v, k, d). u = n) (edges g)"

definition in_edges :: "flow_graph \<Rightarrow> node \<Rightarrow> edge list" where
  "in_edges g n = filter (\<lambda>(u, v, k, d). v = n) (edges g)"

text \<open>\<open>graph.graph[key]\<close>, \<open>graph.nodes[n]\<close> and \<open>data[key]\<close> raise \<open>KeyError\<close> on a missing key.\<close>

definition get_input_node :: "flow_graph \<Rightarrow> error + node" where
  "get_input_node g = (case graph_input g of None \<Rightarrow> Inl (KeyError ''input_node'') | Some n \<Rightarrow> Inr n)"

definition get_output_node :: "flow_graph \<Rightarrow> error + node" where
  "get_output_node g = (case graph_output g of None \<Rightarrow> Inl (KeyError ''output_node'') | Some n \<Rightarrow> Inr n)"

definition node_attributes :: "flow_graph \<Rightarrow> node \<Rightarrow> error + node_data" where
  "node_attributes g n = (case map_of (nodes g) n of None \<Rightarrow> Inl (KeyError n) | Some d \<Rightarrow> Inr d)"

definition data_id :: "data \<Rightarrow> error + nat" where
  "data_id d = (case id_of d of None \<Rightarrow> Inl (KeyError ''id'') | Some i \<Rightarrow> Inr i)"

definition data_sourceport :: "data \<Rightarrow> error + string" where
  "data_sourceport d = (case sourceport d of None \<Rightarrow> Inl (KeyError ''sourceport'') | Some p \<Rightarrow> Inr p)"

definition data_targetport :: "data \<Rightarrow> error + string" where
  "data_targetport d = (case targetport d of None \<Rightarrow> Inl (KeyError ''targetport'') | Some p \<Rightarrow> Inr p)"

text \<open>
  The truth value of a graph is that of its \<open>len\<close>, the number of its nodes: \<open>None\<close> and
  a graph with no node are both false.
\<close>

definition truthy :: "flow_graph option \<Rightarrow> bool" where
  "truthy sub = (case sub of None \<Rightarrow> False | Some h \<Rightarrow> nodes h \<noteq> [])"

subsection \<open>\<open>new_flow_graph\<close> and \<open>copy_flow_graph\<close>\<close>

definition new_flow_graph :: flow_graph where
  "new_flow_graph =
     (let input_node = ''__in__''; output_node = ''__out__'';
          graph = MultiDiGraph None None [] [];
          graph = add_node (add_node graph input_node empty_data) output_node empty_data
      in MultiDiGraph (Some input_node) (Some output_node) (nodes graph) (edges graph))"

definition copy_flow_graph :: "flow_graph \<Rightarrow> flow_graph \<Rightarrow> error + flow_graph" where
  "copy_flow_graph source_graph dest_graph =
     bind (get_input_node source_graph) (\<lambda>skip0.
     bind (get_output_node source_graph) (\<lambda>skip1.
       let dest1 = fold (\<lambda>(n, d) g. add_node g n d)
                     (filter (\<lambda>(n, d). n \<noteq> skip0 \<and> n \<noteq> skip1) (nodes source_graph)) dest_graph;
           dest2 = fold (\<lambda>(u, v, k, d) g. add_edge g u v d)
                     (filter (\<lambda>(u, v, k, d). (u \<noteq> skip0 \<and> u \<noteq> skip1) \<and> (v \<noteq> skip0 \<and> v \<noteq> skip1))
                        (edges source_graph)) dest1
       in Inr dest2))"

subsection \<open>\<open>flow_graph_to_graphml\<close>, \<open>_ncopies\<close> and \<open>flow_graph_from_graphml\<close>\<close>

fun str :: "nat \<Rightarrow> string" where
  "str n = (if n < 10 then [''0123456789'' ! n]
            else str (n div 10) @ [''0123456789'' ! (n mod 10)])"

declare str.simps [simp del]

text \<open>
  \<open>_ncopies\<close>: the number of edges out of \<open>node\<close> that carry \<open>obj_id\<close> and do not end in
  the output node. The caller has read \<open>graph.graph['output_node']\<close> before.
\<close>

definition ncopies :: "flow_graph \<Rightarrow> node \<Rightarrow> nat \<Rightarrow> error + nat" where
  "ncopies g n i =
     bind (get_output_node g) (\<lambda>output_node.
       Inr (length (filter (\<lambda>(u, tgt, k, d). id_of d = Some i)
                      (filter (\<lambda>(u, tgt, k, d). tgt \<noteq> output_node) (out_edges g n)))))"

text \<open>The dictionary comprehension over \<open>data_keys = {'annotation'}\<close>.\<close>

definition new_port :: "string \<Rightarrow> data \<Rightarrow> port_data" where
  "new_port kind d = \<lparr> portkind = kind, port_annotation = annotation d \<rparr>"

text \<open>
  The first loop of \<open>flow_graph_to_graphml\<close> visits the edges out of the input node in
  order and writes \<open>sourceport\<close> into the attribute dictionary of each; the other edges
  are untouched. The state is \<open>ninputs\<close>, \<open>input_map\<close> and \<open>ports\<close>.
\<close>

fun input_ports ::
  "node \<Rightarrow> edge list \<Rightarrow> nat \<Rightarrow> (nat \<Rightarrow> string option) \<Rightarrow> (string \<times> port_data) list
   \<Rightarrow> error + (edge list \<times> (string \<times> port_data) list)" where
  "input_ports inp [] ninputs input_map ports = Inr ([], ports)"
| "input_ports inp ((u, v, k, d) # es) ninputs input_map ports =
     (if u = inp then
        bind (data_id d) (\<lambda>i.
          case (case input_map i of None \<Rightarrow> None | Some p \<Rightarrow> if p = [] then None else Some p) of
            None \<Rightarrow>
              (let ninputs = ninputs + 1;
                   portname = ''in:'' @ str ninputs;
                   ports = dict_set portname (new_port ''input'' d) ports;
                   input_map = input_map(i \<mapsto> portname)
               in bind (input_ports inp es ninputs input_map ports) (\<lambda>(es', ports').
                    Inr ((u, v, k, d\<lparr>sourceport := Some portname\<rparr>) # es', ports')))
          | Some portname \<Rightarrow>
              bind (input_ports inp es ninputs input_map ports) (\<lambda>(es', ports').
                Inr ((u, v, k, d\<lparr>sourceport := Some portname\<rparr>) # es', ports')))
      else bind (input_ports inp es ninputs input_map ports) (\<lambda>(es', ports').
             Inr ((u, v, k, d) # es', ports')))"

text \<open>
  The second loop visits a snapshot of the edges into the output node. \<open>kept\<close> are the
  edges before the visited one as the loop has left them and \<open>es\<close> the edges from the
  visited one on, so the graph that \<open>_ncopies\<close> reads at this iteration has the edges
  \<open>kept @ es\<close>. \<open>remove_edge(src, output_node, key)\<close> names the visited edge itself, which
  is dropped.
\<close>

fun output_ports ::
  "string option \<Rightarrow> flow_graph \<Rightarrow> node \<Rightarrow> edge list \<Rightarrow> edge list \<Rightarrow> nat \<Rightarrow> (string \<times> port_data) list
   \<Rightarrow> error + (edge list \<times> (string \<times> port_data) list)" where
  "output_ports outputs g outp kept [] noutputs ports = Inr (kept, ports)"
| "output_ports outputs g outp kept ((src, v, k, d) # es) noutputs ports =
     (if v = outp then
        bind (if outputs = Some ''none'' then Inr True
              else if outputs = Some ''simplify''
              then bind (data_id d) (\<lambda>i.
                   bind (ncopies (set_edges g (kept @ (src, v, k, d) # es)) src i) (\<lambda>c. Inr (c > 0)))
              else Inr False) (\<lambda>prune.
          if prune then output_ports outputs g outp kept es noutputs ports
          else
            (let noutputs = noutputs + 1;
                 portname = ''out:'' @ str noutputs;
                 ports = dict_set portname (new_port ''output'' d) ports
             in output_ports outputs g outp (kept @ [(src, v, k, d\<lparr>targetport := Some portname\<rparr>)])
                  es noutputs ports))
      else output_ports outputs g outp (kept @ [(src, v, k, d)]) es noutputs ports)"

definition flow_graph_to_graphml :: "flow_graph \<Rightarrow> string option \<Rightarrow> error + flow_graph" where
  "flow_graph_to_graphml graph outputs =
     (let node = ''__root__'' in
      bind (get_input_node graph) (\<lambda>input_node.
      bind (get_output_node graph) (\<lambda>output_node.
      bind (input_ports input_node (edges graph) 0 Map.empty []) (\<lambda>(es1, ports1).
      bind (output_ports outputs (set_edges graph es1) output_node [] es1 0 ports1) (\<lambda>(es2, ports2).
        Inr (MultiDiGraph None None
               [(node, NodeData (Some (set_edges graph es2)) (Some ports2) [])] []))))))"

fun del_sourceports :: "node \<Rightarrow> edge list \<Rightarrow> error + edge list" where
  "del_sourceports inp [] = Inr []"
| "del_sourceports inp ((u, v, k, d) # es) =
     (if u = inp then
        (case sourceport d of
           None \<Rightarrow> Inl (KeyError ''sourceport'')
         | Some p \<Rightarrow> bind (del_sourceports inp es) (\<lambda>es'. Inr ((u, v, k, d\<lparr>sourceport := None\<rparr>) # es')))
      else bind (del_sourceports inp es) (\<lambda>es'. Inr ((u, v, k, d) # es')))"

fun del_targetports :: "node \<Rightarrow> edge list \<Rightarrow> error + edge list" where
  "del_targetports outp [] = Inr []"
| "del_targetports outp ((u, v, k, d) # es) =
     (if v = outp then
        (case targetport d of
           None \<Rightarrow> Inl (KeyError ''targetport'')
         | Some p \<Rightarrow> bind (del_targetports outp es) (\<lambda>es'. Inr ((u, v, k, d\<lparr>targetport := None\<rparr>) # es')))
      else bind (del_targetports outp es) (\<lambda>es'. Inr ((u, v, k, d) # es')))"

definition flow_graph_from_graphml :: "flow_graph \<Rightarrow> error + flow_graph" where
  "flow_graph_from_graphml outer =
     (if length (nodes outer) \<noteq> 1 then Inl AssertionError
      else
        (let node = fst (hd (nodes outer)) in
         bind (node_attributes outer node) (\<lambda>node_data.
         case nested node_data of
           None \<Rightarrow> Inl (KeyError ''graph'')
         | Some graph \<Rightarrow>
             bind (get_input_node graph) (\<lambda>input_node.
             bind (get_output_node graph) (\<lambda>output_node.
             bind (del_sourceports input_node (edges graph)) (\<lambda>es1.
             bind (del_targetports output_node es1) (\<lambda>es2.
               Inr (set_edges graph es2))))))))"

subsection \<open>\<open>flatten\<close>\<close>

fun fold_err :: "('a \<Rightarrow> 's \<Rightarrow> error + 's) \<Rightarrow> 'a list \<Rightarrow> 's \<Rightarrow> error + 's" where
  "fold_err f [] s = Inr s"
| "fold_err f (x # xs) s = bind (f x s) (fold_err f xs)"

text \<open>
  The attribute dictionary handed out by an edge view is the one stored in the graph:
  \<open>data.pop(...)\<close> on it changes the edge \<open>(u, v, key)\<close> of the graph.
\<close>

definition update_data :: "flow_graph \<Rightarrow> node \<Rightarrow> node \<Rightarrow> nat \<Rightarrow> (data \<Rightarrow> data) \<Rightarrow> flow_graph" where
  "update_data g u v k f =
     set_edges g (map (\<lambda>(u', v', k', d). if u' = u \<and> v' = v \<and> k' = k then (u', v', k', f d)
                                        else (u', v', k', d)) (edges g))"

text \<open>
  The search \<open>for src, _, data in graph.in_edges(node, data=True)\<close> with its \<open>break\<close>:
  the first edge whose \<open>data['id']\<close> is the object, if any.
\<close>

fun find_in_edge :: "edge list \<Rightarrow> nat \<Rightarrow> error + edge option" where
  "find_in_edge [] i = Inr None"
| "find_in_edge ((src, v, k, d) # es) i =
     bind (data_id d) (\<lambda>j. if j = i then Inr (Some (src, v, k, d)) else find_in_edge es i)"

text \<open>
  One iteration of the loop that re-wires the input objects of the subgraph. When the
  search finds no edge, the \<open>else\<close> branch of the \<open>for\<close> runs with the variable \<open>data\<close>
  as the search left it: bound to the attributes of the last edge into \<open>node\<close> when there
  is one, and to those of the subgraph's edge only when \<open>node\<close> has no incoming edge.
\<close>

definition rewire_input :: "flow_graph \<Rightarrow> node \<Rightarrow> node \<Rightarrow> edge \<Rightarrow> error + flow_graph" where
  "rewire_input graph node input_node e =
     (case e of (u, tgt, k, data) \<Rightarrow>
        bind (data_id data) (\<lambda>obj_id.
        bind (data_targetport data) (\<lambda>tgt_port.
        bind (find_in_edge (in_edges graph node) obj_id) (\<lambda>found.
          case found of
            Some (src, v, k', data) \<Rightarrow>
              (let graph = update_data graph src v k' (\<lambda>d. d\<lparr>targetport := None\<rparr>);
                   data = data\<lparr>targetport := None\<rparr>
               in Inr (add_edge graph src tgt (data\<lparr>targetport := Some tgt_port\<rparr>)))
          | None \<Rightarrow>
              (let data = (case in_edges graph node of [] \<Rightarrow> data
                           | e' # es' \<Rightarrow> snd (snd (snd (last (e' # es')))))
               in Inr (add_edge graph input_node tgt data))))))"

text \<open>
  The inner loop that re-wires one output object: it runs over the edges out of \<open>node\<close>
  while it adds edges from \<open>src\<close>. When \<open>src\<close> is \<open>node\<close> itself, the addition changes the
  dictionary under iteration and the next step of the iterator raises \<open>RuntimeError\<close>.
\<close>

fun rewire_out_edges ::
  "flow_graph \<Rightarrow> node \<Rightarrow> node \<Rightarrow> nat \<Rightarrow> string \<Rightarrow> edge list \<Rightarrow> error + flow_graph" where
  "rewire_out_edges graph node src obj_id src_port [] = Inr graph"
| "rewire_out_edges graph node src obj_id src_port ((u, tgt, k, data) # es) =
     bind (data_id data) (\<lambda>j.
       if j = obj_id then
         (let graph = update_data graph u tgt k (\<lambda>d. d\<lparr>sourceport := None\<rparr>);
              data = data\<lparr>sourceport := None\<rparr>;
              graph = add_edge graph src tgt (data\<lparr>sourceport := Some src_port\<rparr>)
          in if src = node then Inl RuntimeError
             else rewire_out_edges graph node src obj_id src_port es)
       else rewire_out_edges graph node src obj_id src_port es)"

definition rewire_output :: "flow_graph \<Rightarrow> node \<Rightarrow> edge \<Rightarrow> error + flow_graph" where
  "rewire_output graph node e =
     (case e of (src, v, k, data) \<Rightarrow>
        bind (data_id data) (\<lambda>obj_id.
        bind (data_sourceport data) (\<lambda>src_port.
          rewire_out_edges graph node src obj_id src_port (out_edges graph node))))"

text \<open>
  The body of \<open>for node in list(graph.nodes)\<close>. \<open>flatten_rec\<close> is the recursive call
  \<open>flatten(subgraph, copy=False)\<close>.
\<close>

definition flatten_node ::
  "(flow_graph \<Rightarrow> error + flow_graph) \<Rightarrow> node \<Rightarrow> node \<Rightarrow> flow_graph \<Rightarrow> error + flow_graph" where
  "flatten_node flatten_rec input_node node graph =
     bind (node_attributes graph node) (\<lambda>node_data.
       case nested node_data of
         None \<Rightarrow> Inr graph
       | Some subgraph \<Rightarrow>
           if nodes subgraph = [] then Inr graph
           else
             bind (flatten_rec subgraph) (\<lambda>subgraph.
             bind (get_input_node subgraph) (\<lambda>sub_input_node.
             bind (get_output_node subgraph) (\<lambda>sub_output_node.
             bind (copy_flow_graph subgraph graph) (\<lambda>graph.
             bind (fold_err (\<lambda>e g. rewire_input g node input_node e)
                     (out_edges subgraph sub_input_node) graph) (\<lambda>graph.
             bind (fold_err (\<lambda>e g. rewire_output g node e)
                     (in_edges subgraph sub_output_node) graph) (\<lambda>graph.
               remove_node graph node)))))))"

text \<open>
  \<open>flatten\<close>. The first argument bounds the depth of the recursion, as the interpreter's
  recursion limit does: at depth \<open>0\<close> the call raises \<open>RecursionError\<close>. The result is the
  value of the graph that the call returns; \<open>copy\<close> decides only whether that graph is a
  new object or the argument itself, changed in place.
\<close>

fun flatten :: "nat \<Rightarrow> flow_graph \<Rightarrow> bool \<Rightarrow> error + flow_graph" where
  "flatten 0 graph copy = Inl RecursionError"
| "flatten (Suc limit) graph copy =
     bind (get_input_node graph) (\<lambda>input_node.
     bind (get_output_node graph) (\<lambda>output_node.
       fold_err (flatten_node (\<lambda>subgraph. flatten limit subgraph False) input_node)
         (map fst (nodes graph)) graph))"

text \<open>
  What a call \<open>flatten(graph, copy)\<close> leaves in the graph object that it was given. With
  \<open>copy=False\<close> the argument is the graph that is changed and returned. With \<open>copy=True\<close>
  the loop works on \<open>graph.copy()\<close>. The copy has attribute dictionaries of its own, but
  their values are those of the argument: the nested graph of a node of the copy is the
  object stored on that node of the argument. The recursive call
  \<open>flatten(subgraph, copy=False)\<close> changes that object in place; nothing else of the
  argument is written.
\<close>

fun flatten_argument :: "nat \<Rightarrow> flow_graph \<Rightarrow> bool \<Rightarrow> error + flow_graph" where
  "flatten_argument limit graph False = flatten limit graph False"
| "flatten_argument 0 graph True = Inl RecursionError"
| "flatten_argument (Suc limit) graph True =
     bind (flatten (Suc limit) graph True) (\<lambda>returned.
     bind (fold_err
             (\<lambda>(node, node_data) kept.
                case nested node_data of
                  None \<Rightarrow> Inr (kept @ [(node, node_data)])
                | Some subgraph \<Rightarrow>
                    if nodes subgraph = [] then Inr (kept @ [(node, node_data)])
                    else bind (flatten limit subgraph False) (\<lambda>subgraph.
                      Inr (kept @ [(node, NodeData (Some subgraph) (node_ports node_data)
                                            (attrs node_data))])))
             (nodes graph) []) (\<lambda>kept.
       Inr (set_nodes graph kept)))"

subsection \<open>\<open>join\<close>\<close>

text \<open>The dictionary comprehension that builds \<open>output_table\<close>: a later edge overwrites
  the entry of an earlier edge with the same \<open>id\<close>.\<close>

fun build_output_table ::
  "edge list \<Rightarrow> (nat \<Rightarrow> (node \<times> nat) option) \<Rightarrow> error + (nat \<Rightarrow> (node \<times> nat) option)" where
  "build_output_table [] table = Inr table"
| "build_output_table ((src, v, key, data) # es) table =
     bind (data_id data) (\<lambda>i. build_output_table es (table(i \<mapsto> (src, key))))"

text \<open>\<open>graph.edges[u, v, key]\<close>.\<close>

definition edge_data :: "flow_graph \<Rightarrow> node \<Rightarrow> node \<Rightarrow> nat \<Rightarrow> error + data" where
  "edge_data g u v k =
     (case find (\<lambda>(u', v', k', d). u' = u \<and> v' = v \<and> k' = k) (edges g) of
        None \<Rightarrow> Inl (KeyError ''edge'')
      | Some (u', v', k', d) \<Rightarrow> Inr d)"

text \<open>
  One iteration of the loop over the inputs of the second graph. The call
  \<open>graph.add_edge(src, tgt, sourceport=src_port, **data)\<close> raises \<open>TypeError\<close> when
  \<open>data\<close> has the key \<open>sourceport\<close> too.
\<close>

definition join_input ::
  "node \<Rightarrow> node \<Rightarrow> (nat \<Rightarrow> (node \<times> nat) option) \<Rightarrow> edge \<Rightarrow> flow_graph \<Rightarrow> error + flow_graph" where
  "join_input input_node output_node output_table e graph =
     (case e of (u, tgt, k, data) \<Rightarrow>
        bind (data_id data) (\<lambda>i.
          case output_table i of
            Some (src, key) \<Rightarrow>
              bind (edge_data graph src output_node key) (\<lambda>d0.
              bind (data_sourceport d0) (\<lambda>src_port.
                if sourceport data \<noteq> None then Inl (TypeError ''sourceport'')
                else Inr (add_edge graph src tgt (data\<lparr>sourceport := Some src_port\<rparr>))))
          | None \<Rightarrow> Inr (add_edge graph input_node tgt data)))"

definition join_output ::
  "node \<Rightarrow> (nat \<Rightarrow> (node \<times> nat) option) \<Rightarrow> edge \<Rightarrow> flow_graph \<Rightarrow> error + flow_graph" where
  "join_output output_node output_table e graph =
     (case e of (src, v, k, data) \<Rightarrow>
        bind (data_id data) (\<lambda>i.
        bind (case output_table i of
                Some (old, key) \<Rightarrow> remove_edge graph old output_node key
              | None \<Rightarrow> Inr graph) (\<lambda>graph.
          Inr (add_edge graph src output_node data))))"

text \<open>
  \<open>join\<close>. As for \<open>flatten\<close>, the result is the value of the returned graph, and \<open>copy\<close>
  decides only whether it is a new object or \<open>first\<close> itself.
\<close>

definition join :: "flow_graph \<Rightarrow> flow_graph \<Rightarrow> bool \<Rightarrow> error + flow_graph" where
  "join first second copy =
     (let graph = first in
      bind (get_input_node graph) (\<lambda>input_node.
      bind (get_output_node graph) (\<lambda>output_node.
      bind (build_output_table (in_edges graph output_node) Map.empty) (\<lambda>output_table.
      bind (copy_flow_graph second graph) (\<lambda>graph.
      bind (get_input_node second) (\<lambda>second_input.
      bind (fold_err (join_input input_node output_node output_table)
              (out_edges second second_input) graph) (\<lambda>graph.
      bind (get_output_node second) (\<lambda>second_output.
        fold_err (join_output output_node output_table)
          (in_edges second second_output) graph))))))))"

section \<open>Notions used to state the properties\<close>

subsection \<open>Well-formed flow graphs\<close>

text \<open>
  The operations assume a well-formed graph: both sentinels are named by the graph
  attributes and are nodes of the graph, and every edge carries an \<open>id\<close>.
\<close>

definition edges_have_ids :: "flow_graph \<Rightarrow> bool" where
  "edges_have_ids g = list_all (\<lambda>(u, v, k, d). id_of d \<noteq> None) (edges g)"

definition well_formed :: "flow_graph \<Rightarrow> bool" where
  "well_formed g =
     (case (graph_input g, graph_output g) of
        (Some inp, Some outp) \<Rightarrow> has_node g inp \<and> has_node g outp \<and> edges_have_ids g
      | _ \<Rightarrow> False)"

text \<open>
  Before serialization an edge out of the input node has no \<open>sourceport\<close> and an edge
  into the output node has no \<open>targetport\<close>.
\<close>

definition ports_invariant :: "flow_graph \<Rightarrow> bool" where
  "ports_invariant g =
     list_all (\<lambda>(u, v, k, d). (Some u = graph_input g \<longrightarrow> sourceport d = None) \<and>
                             (Some v = graph_output g \<longrightarrow> targetport d = None)) (edges g)"


subsection \<open>Port names on edges\<close>

text \<open>
  \<open>source_added inp e e'\<close>: \<open>e'\<close> is \<open>e\<close>, with a \<open>sourceport\<close> written into its attributes
  when it leaves \<open>inp\<close>. \<open>target_added outp e e'\<close>: likewise with a \<open>targetport\<close> when it
  enters \<open>outp\<close>. \<open>ports_added\<close> is one after the other. \<open>strip_ports\<close> removes the two
  attributes again at the sentinels.
\<close>

definition source_added :: "node \<Rightarrow> edge \<Rightarrow> edge \<Rightarrow> bool" where
  "source_added inp e e' =
     (case e of (u, v, k, d) \<Rightarrow> case e' of (u', v', k', d') \<Rightarrow>
        u' = u \<and> v' = v \<and> k' = k \<and>
        (if u = inp then (\<exists>p. d' = d\<lparr>sourceport := Some p\<rparr>) else d' = d))"

definition target_added :: "node \<Rightarrow> edge \<Rightarrow> edge \<Rightarrow> bool" where
  "target_added outp e e' =
     (case e of (u, v, k, d) \<Rightarrow> case e' of (u', v', k', d') \<Rightarrow>
        u' = u \<and> v' = v \<and> k' = k \<and>
        (if v = outp then (\<exists>p. d' = d\<lparr>targetport := Some p\<rparr>) else d' = d))"


definition clear_sourceport :: "node \<Rightarrow> edge \<Rightarrow> edge" where
  "clear_sourceport inp e =
     (case e of (u, v, k, d) \<Rightarrow> (u, v, k, if u = inp then d\<lparr>sourceport := None\<rparr> else d))"

definition clear_targetport :: "node \<Rightarrow> edge \<Rightarrow> edge" where
  "clear_targetport outp e =
     (case e of (u, v, k, d) \<Rightarrow> (u, v, k, if v = outp then d\<lparr>targetport := None\<rparr> else d))"

definition strip_ports :: "node \<Rightarrow> node \<Rightarrow> edge \<Rightarrow> edge" where
  "strip_ports inp outp e =
     (case e of (u, v, k, d) \<Rightarrow>
        (u, v, k, d\<lparr>sourceport := (if u = inp then None else sourceport d),
                    targetport := (if v = outp then None else targetport d)\<rparr>))"

subsection \<open>Pruning of outputs\<close>




subsection \<open>Nested graphs\<close>

text \<open>
  A nested flow graph is a flow graph of its own: \<open>well_formed_deep\<close> asks that the
  graph and every nested graph, at any depth, is well formed and names each of its
  nodes once (\<open>nodes\<close> is a dictionary).
\<close>

fun well_formed_deep :: "flow_graph \<Rightarrow> bool" where
  "well_formed_deep (MultiDiGraph inp outp ns es) =
     (well_formed (MultiDiGraph inp outp ns es) \<and> distinct (map fst ns) \<and>
      list_all (\<lambda>(n, d). case d of NodeData sub ps as \<Rightarrow>
                  (case sub of None \<Rightarrow> True | Some h \<Rightarrow> well_formed_deep h)) ns)"

text \<open>No node carries a nested graph.\<close>

definition all_atomic :: "flow_graph \<Rightarrow> bool" where
  "all_atomic g = list_all (\<lambda>(n, d). nested d = None) (nodes g)"

text \<open>
  \<open>grows g g'\<close>: \<open>g'\<close> has the graph attributes of \<open>g\<close>, at least its nodes, and no
  nested graph that \<open>g\<close> does not have on the same node.
\<close>

definition grows :: "flow_graph \<Rightarrow> flow_graph \<Rightarrow> bool" where
  "grows g g' =
     (graph_input g' = graph_input g \<and> graph_output g' = graph_output g \<and>
      (distinct (map fst (nodes g)) \<longrightarrow> distinct (map fst (nodes g'))) \<and>
      fst ` set (nodes g) \<subseteq> fst ` set (nodes g') \<and>
      (\<forall>m d' h. (m, d') \<in> set (nodes g') \<longrightarrow> nested d' = Some h \<longrightarrow>
         (\<exists>d. (m, d) \<in> set (nodes g) \<and> nested d = Some h)))"

text \<open>
  \<open>carriers_in g ns\<close>: every node of \<open>g\<close> that carries a nested graph is listed in \<open>ns\<close>, and
  that nested graph is well formed. \<open>atomic_node g m\<close>: \<open>m\<close> is a node of \<open>g\<close> with no nested graph.
\<close>

definition carriers_in :: "flow_graph \<Rightarrow> node list \<Rightarrow> bool" where
  "carriers_in g ns =
     (\<forall>m d h. (m, d) \<in> set (nodes g) \<longrightarrow> nested d = Some h \<longrightarrow> m \<in> set ns \<and> well_formed_deep h)"

definition atomic_node :: "flow_graph \<Rightarrow> node \<Rightarrow> bool" where
  "atomic_node g m =
     (has_node g m \<and> list_all (\<lambda>(n, d). n = m \<longrightarrow> nested d = None) (nodes g))"

subsection \<open>Sentinels\<close>

text \<open>
  \<open>has_sentinels g\<close>: the graph attributes \<open>input_node\<close> and \<open>output_node\<close> are present
  and name nodes of \<open>g\<close>. \<open>plain_sentinels g\<close>: moreover neither sentinel carries a nested
  graph (a sentinel is never a call). \<open>keeps_nodes g g'\<close>: \<open>g'\<close> has the graph attributes
  and at least the nodes of \<open>g\<close>.
\<close>

definition has_sentinels :: "flow_graph \<Rightarrow> bool" where
  "has_sentinels g =
     (case (graph_input g, graph_output g) of
        (Some inp, Some outp) \<Rightarrow> has_node g inp \<and> has_node g outp
      | _ \<Rightarrow> False)"

definition plain_sentinels :: "flow_graph \<Rightarrow> bool" where
  "plain_sentinels g =
     (case (graph_input g, graph_output g) of
        (Some inp, Some outp) \<Rightarrow> atomic_node g inp \<and> atomic_node g outp
      | _ \<Rightarrow> False)"

definition keeps_nodes :: "flow_graph \<Rightarrow> flow_graph \<Rightarrow> bool" where
  "keeps_nodes g g' =
     (graph_input g' = graph_input g \<and> graph_output g' = graph_output g \<and>
      fst ` set (nodes g) \<subseteq> fst ` set (nodes g'))"

subsection \<open>Notions for \<open>join\<close>\<close>





subsection \<open>Example graphs\<close>

definition edge_attrs :: "nat \<Rightarrow> string option \<Rightarrow> string option \<Rightarrow> data" where
  "edge_attrs i s t =
     \<lparr> id_of = Some i, sourceport = s, targetport = t, annotation = None, other = [] \<rparr>"

text \<open>
  Node \<open>A\<close> reads the outside object 1 and produces object 2, which node \<open>B\<close> consumes and
  which also reaches the output node; \<open>B\<close> produces object 3.
\<close>

definition example_graph :: flow_graph where
  "example_graph =
     MultiDiGraph (Some ''__in__'') (Some ''__out__'')
       [(''__in__'', empty_data), (''__out__'', empty_data),
        (''A'', empty_data), (''B'', empty_data)]
       [(''__in__'', ''A'', 0, edge_attrs 1 None (Some ''x'')),
        (''A'', ''B'', 0, edge_attrs 2 (Some ''return'') (Some ''y'')),
        (''A'', ''__out__'', 0, edge_attrs 2 (Some ''return'') None),
        (''B'', ''__out__'', 0, edge_attrs 3 (Some ''return'') None)]"

text \<open>
  A call \<open>n\<close> whose body was traced: its nested graph \<open>middle_graph\<close> holds a call \<open>m\<close>
  whose body was traced too, with the nested graph \<open>inner_graph\<close> and its atomic call
  \<open>h\<close>. Object 1 comes from outside and is passed down; object 2 is returned up.
\<close>

definition inner_graph :: flow_graph where
  "inner_graph =
     MultiDiGraph (Some ''__in__'') (Some ''__out__'')
       [(''__in__'', empty_data), (''__out__'', empty_data), (''h'', empty_data)]
       [(''__in__'', ''h'', 0, edge_attrs 1 None (Some ''x'')),
        (''h'', ''__out__'', 0, edge_attrs 2 (Some ''return'') None)]"

definition middle_graph :: flow_graph where
  "middle_graph =
     MultiDiGraph (Some ''__in__'') (Some ''__out__'')
       [(''__in__'', empty_data), (''__out__'', empty_data),
        (''m'', NodeData (Some inner_graph) None [])]
       [(''__in__'', ''m'', 0, edge_attrs 1 None (Some ''a'')),
        (''m'', ''__out__'', 0, edge_attrs 2 (Some ''return'') None)]"

definition nested_example :: flow_graph where
  "nested_example =
     MultiDiGraph (Some ''__in__'') (Some ''__out__'')
       [(''__in__'', empty_data), (''__out__'', empty_data),
        (''n'', NodeData (Some middle_graph) None [])]
       [(''__in__'', ''n'', 0, edge_attrs 1 None (Some ''p'')),
        (''n'', ''__out__'', 0, edge_attrs 2 (Some ''return'') None)]"

text \<open>
  Two graphs captured after \<open>example_graph\<close>. In both, the call \<open>T\<close> reads object 2, which
  \<open>example_graph\<close> leaves as an output of \<open>A\<close>. In \<open>consumer_graph\<close> it returns the new
  object 4; in \<open>updater_graph\<close> it changes object 2, which is therefore an output again.
\<close>

definition consumer_graph :: flow_graph where
  "consumer_graph =
     MultiDiGraph (Some ''__in__'') (Some ''__out__'')
       [(''__in__'', empty_data), (''__out__'', empty_data), (''T'', empty_data)]
       [(''__in__'', ''T'', 0, edge_attrs 2 None (Some ''z'')),
        (''T'', ''__out__'', 0, edge_attrs 4 (Some ''return'') None)]"






text \<open>
  \<open>nested_example_after\<close>: \<open>nested_example\<close> with the graph \<open>inner_graph\<close> stored on the node
  \<open>n\<close>, in the place of \<open>middle_graph\<close>.
\<close>

definition nested_example_after :: flow_graph where
  "nested_example_after =
     MultiDiGraph (Some ''__in__'') (Some ''__out__'')
       [(''__in__'', empty_data), (''__out__'', empty_data),
        (''n'', NodeData (Some inner_graph) None [])]
       [(''__in__'', ''n'', 0, edge_attrs 1 None (Some ''p'')),
        (''n'', ''__out__'', 0, edge_attrs 2 (Some ''return'') None)]"

section \<open>Basic facts\<close>

lemma bind_Inr [simp]: "bind (Inr x) f = f x"
  by (simp add: bind_def)

lemma bind_Inl [simp]: "bind (Inl e) f = Inl e"
  by (simp add: bind_def)

lemma list_all2_map_eq:
  "list_all2 R xs ys \<Longrightarrow> (\<And>x y. R x y \<Longrightarrow> f y = h x) \<Longrightarrow> map f ys = map h xs"
  by (induction rule: list_all2_induct) auto

lemma list_all2_compose:
  "list_all2 P xs ys \<Longrightarrow> list_all2 Q ys zs \<Longrightarrow> list_all2 (\<lambda>x z. \<exists>y. P x y \<and> Q y z) xs zs"
proof (induction arbitrary: zs rule: list_all2_induct)
  case Nil
  then show ?case by simp
next
  case (Cons x xs y ys)
  then show ?case by (cases zs) auto
qed

lemma list_all2_rightD:
  "list_all2 R xs ys \<Longrightarrow> y \<in> set ys \<Longrightarrow> \<exists>x \<in> set xs. R x y"
  by (induction rule: list_all2_induct) auto





section \<open>Assignment targets\<close>

lemma target_list_NameError:
  "target_to_literal (List elts ctx) = Inl (NameError ''target'')"
  by simp

text \<open>
  C7. The assignment \<open>[a, b] = v\<close> has one target, a list of two names, which the
  docstring-level contract accepts; rewriting it raises \<open>NameError\<close> instead of producing
  the traced assignment.
\<close>

theorem visit_Assign_list_target_fails:
  "name_sequence (List [Name ''a'' Store, Name ''b'' Store] Store) \<and>
   visit_stmt tr hs (Assign [List [Name ''a'' Store, Name ''b'' Store] Store] v)
     = Inl (NameError ''target'')"
  by (simp add: visit_Assign_def bind_def)

section \<open>Deletions\<close>

lemma visit_eq: "visit tr hs = visit_state tr hs False False"
  by (rule ext) (simp add: visit_def)

lemma name_ids_visit:
  "list_all parsed_del_target targets \<Longrightarrow>
   name_ids (map (visit_state tr hs False False) targets) = name_ids targets"
proof (induction targets)
  case Nil
  show ?case by simp
next
  case (Cons t ts)
  then have rest: "name_ids (map (visit_state tr hs False False) ts) = name_ids ts"
    by simp
  from Cons.prems have ok: "parsed_del_target t" by simp
  show ?case
  proof (cases t)
    case (Name ident ctx)
    with ok rest show ?thesis by simp
  next
    case (Call func args kws sargs kargs)
    with rest show ?thesis by (simp add: to_call_def Let_def)
  qed (use rest in simp_all)
qed

text \<open>
  C10. For a \<open>del\<close> statement, rewriting raises nothing and gives two statements: the
  expression statement that calls \<open>trace_delete\<close> on the list of the identifiers of the
  targets that are bare names, in source order (\<open>name_ids\<close> skips every other target),
  and after it the deletion itself, whose bare-name targets are the same as before.
\<close>

theorem visit_Delete_names:
  assumes "list_all parsed_del_target targets"
  shows "visit_stmt tr hs (Delete targets) =
           Inr [Expr (Call (Attribute tr ''trace_delete'' Load)
                        [List (map Str (name_ids targets)) Load] [] None None),
                Delete (map (visit tr hs) targets)]
         \<and> name_ids (map (visit tr hs) targets) = name_ids targets"
  using name_ids_visit [OF assms, of tr hs]
  by (simp add: visit_Delete_def visit_eq to_call_def to_list_def tracer_method_def
      to_attribute_def Let_def)

theorem visit_Delete_names_witness:
  "list_all parsed_del_target
     [Name ''x'' Del, Attribute (Name ''a'' Load) ''b'' Del,
      Subscript (Name ''y'' Load) (Num 0) Del, Name ''z'' Del]
   \<and> visit_stmt (Name ''t'' Load) True
       (Delete [Name ''x'' Del, Attribute (Name ''a'' Load) ''b'' Del,
                Subscript (Name ''y'' Load) (Num 0) Del, Name ''z'' Del]) =
     Inr [Expr (Call (Attribute (Name ''t'' Load) ''trace_delete'' Load)
                  [List [Str ''x'', Str ''z''] Load] [] None None),
          Delete [Name ''x'' Del,
                  Attribute (Call (Attribute (Name ''t'' Load) ''trace_access'' Load)
                               [Str ''a'', Name ''a'' Load] [] None None) ''b'' Del,
                  Subscript (Call (Attribute (Name ''t'' Load) ''trace_access'' Load)
                               [Str ''y'', Name ''y'' Load] [] None None) (Num 0) Del,
                  Name ''z'' Del]]"
proof -
  have ok: "list_all parsed_del_target
     [Name ''x'' Del, Attribute (Name ''a'' Load) ''b'' Del,
      Subscript (Name ''y'' Load) (Num 0) Del, Name ''z'' Del]"
    by simp
  show ?thesis
    using ok visit_Delete_names [OF ok, of "Name ''t'' Load" True]
    by (simp add: visit_eq to_call_def tracer_method_def to_attribute_def)
qed

section \<open>The GraphML round trip\<close>

lemma source_added_iff:
  "source_added inp (u, v, k, d) (u', v', k', d') =
     (u' = u \<and> v' = v \<and> k' = k \<and>
      (if u = inp then (\<exists>p. d' = d\<lparr>sourceport := Some p\<rparr>) else d' = d))"
  by (simp add: source_added_def)

lemma target_added_iff:
  "target_added outp (u, v, k, d) (u', v', k', d') =
     (u' = u \<and> v' = v \<and> k' = k \<and>
      (if v = outp then (\<exists>p. d' = d\<lparr>targetport := Some p\<rparr>) else d' = d))"
  by (simp add: target_added_def)

lemma input_ports_total:
  assumes "\<forall>(u, v, k, d) \<in> set es. u = inp \<longrightarrow> id_of d \<noteq> None"
  shows "\<exists>es' ports'. input_ports inp es n m ports = Inr (es', ports') \<and>
           list_all2 (source_added inp) es es'"
  using assms
proof (induction es arbitrary: n m ports)
  case Nil
  show ?case by simp
next
  case (Cons e es)
  obtain u v k d where e: "e = (u, v, k, d)" by (cases e) auto
  have rest: "\<And>n m ports. \<exists>es' ports'. input_ports inp es n m ports = Inr (es', ports') \<and>
           list_all2 (source_added inp) es es'"
    using Cons by simp
  show ?case
  proof (cases "u = inp")
    case False
    obtain es' ports' where "input_ports inp es n m ports = Inr (es', ports')"
      "list_all2 (source_added inp) es es'" using rest by blast
    with False e show ?thesis by (simp add: bind_def source_added_iff)
  next
    case True
    with Cons.prems e obtain i where i: "id_of d = Some i" by auto
    show ?thesis
    proof (cases "case m i of None \<Rightarrow> None | Some p \<Rightarrow> if p = [] then None else Some p")
      case None
      obtain es' ports' where
        "input_ports inp es (n + 1) (m(i \<mapsto> ''in:'' @ str (n + 1)))
            (dict_set (''in:'' @ str (n + 1)) (new_port ''input'' d) ports) = Inr (es', ports')"
        "list_all2 (source_added inp) es es'" using rest by blast
      with True e i None show ?thesis
        by (auto simp add: bind_def source_added_iff data_id_def Let_def)
    next
      case (Some p)
      obtain es' ports' where "input_ports inp es n m ports = Inr (es', ports')"
        "list_all2 (source_added inp) es es'" using rest by blast
      with True e i Some show ?thesis
        by (auto simp add: bind_def source_added_iff data_id_def Let_def)
    qed
  qed
qed

lemma output_ports_all:
  assumes "outputs \<noteq> Some ''none''" "outputs \<noteq> Some ''simplify''"
  shows "\<exists>es' ports'. output_ports outputs g outp kept es n ports = Inr (kept @ es', ports') \<and>
           list_all2 (target_added outp) es es'"
proof (induction es arbitrary: kept n ports)
  case Nil
  show ?case by simp
next
  case (Cons e es)
  obtain u v k d where e: "e = (u, v, k, d)" by (cases e) auto
  show ?case
  proof (cases "v = outp")
    case False
    obtain es' ports' where
      "output_ports outputs g outp (kept @ [(u, v, k, d)]) es n ports = Inr ((kept @ [(u, v, k, d)]) @ es', ports')"
      "list_all2 (target_added outp) es es'" using Cons by blast
    with False e show ?thesis by (simp add: target_added_iff)
  next
    case True
    obtain es' ports' where
      "output_ports outputs g outp (kept @ [(u, v, k, d\<lparr>targetport := Some (''out:'' @ str (n + 1))\<rparr>)]) es (n + 1)
         (dict_set (''out:'' @ str (n + 1)) (new_port ''output'' d) ports)
        = Inr ((kept @ [(u, v, k, d\<lparr>targetport := Some (''out:'' @ str (n + 1))\<rparr>)]) @ es', ports')"
      "list_all2 (target_added outp) es es'" using Cons by blast
    with True e assms show ?thesis by (auto simp add: target_added_iff bind_def Let_def)
  qed
qed

lemma del_sourceports_map:
  "\<forall>(u, v, k, d) \<in> set es. u = inp \<longrightarrow> sourceport d \<noteq> None \<Longrightarrow>
   del_sourceports inp es = Inr (map (clear_sourceport inp) es)"
proof (induction es)
  case Nil
  show ?case by simp
next
  case (Cons e es)
  obtain u v k d where e: "e = (u, v, k, d)" by (cases e) auto
  from Cons have "del_sourceports inp es = Inr (map (clear_sourceport inp) es)" by simp
  with Cons.prems e show ?case
    by (auto simp add: bind_def clear_sourceport_def)
qed

lemma del_targetports_map:
  "\<forall>(u, v, k, d) \<in> set es. v = outp \<longrightarrow> targetport d \<noteq> None \<Longrightarrow>
   del_targetports outp es = Inr (map (clear_targetport outp) es)"
proof (induction es)
  case Nil
  show ?case by simp
next
  case (Cons e es)
  obtain u v k d where e: "e = (u, v, k, d)" by (cases e) auto
  from Cons have "del_targetports outp es = Inr (map (clear_targetport outp) es)" by simp
  with Cons.prems e show ?case
    by (auto simp add: bind_def clear_targetport_def)
qed

lemma ports_then_strip:
  assumes "source_added inp e e1" "target_added outp e1 e2"
  shows "clear_targetport outp (clear_sourceport inp e2) = strip_ports inp outp e"
proof -
  obtain u v k d where e: "e = (u, v, k, d)" by (cases e) auto
  obtain u1 v1 k1 d1 where e1: "e1 = (u1, v1, k1, d1)" by (cases e1) auto
  obtain u2 v2 k2 d2 where e2: "e2 = (u2, v2, k2, d2)" by (cases e2) auto
  from assms show ?thesis
    unfolding e e1 e2 source_added_iff target_added_iff
    by (auto simp add: clear_targetport_def clear_sourceport_def strip_ports_def split: if_splits)
qed

lemma ports_then_source:
  assumes "source_added inp e e1" "target_added outp e1 e2"
  shows "(case e2 of (u, v, k, d) \<Rightarrow> u = inp \<longrightarrow> sourceport d \<noteq> None)"
proof -
  obtain u v k d where e: "e = (u, v, k, d)" by (cases e) auto
  obtain u1 v1 k1 d1 where e1: "e1 = (u1, v1, k1, d1)" by (cases e1) auto
  obtain u2 v2 k2 d2 where e2: "e2 = (u2, v2, k2, d2)" by (cases e2) auto
  from assms show ?thesis
    unfolding e e1 e2 source_added_iff target_added_iff
    by (auto split: if_splits)
qed

lemma ports_then_target:
  assumes "target_added outp e1 e2"
  shows "(case clear_sourceport inp e2 of (u, v, k, d) \<Rightarrow> v = outp \<longrightarrow> targetport d \<noteq> None)"
proof -
  obtain u1 v1 k1 d1 where e1: "e1 = (u1, v1, k1, d1)" by (cases e1) auto
  obtain u2 v2 k2 d2 where e2: "e2 = (u2, v2, k2, d2)" by (cases e2) auto
  from assms show ?thesis
    unfolding e1 e2 target_added_iff
    by (auto simp add: clear_sourceport_def split: if_splits)
qed

lemma strip_ports_id:
  "ports_invariant g \<Longrightarrow> graph_input g = Some inp \<Longrightarrow> graph_output g = Some outp \<Longrightarrow>
   map (strip_ports inp outp) (edges g) = edges g"
proof -
  assume a: "ports_invariant g" "graph_input g = Some inp" "graph_output g = Some outp"
  have "\<And>e. e \<in> set (edges g) \<Longrightarrow> strip_ports inp outp e = e"
  proof -
    fix e assume e: "e \<in> set (edges g)"
    obtain u v k d where ed: "e = (u, v, k, d)" by (cases e) auto
    from a e ed have "(u = inp \<longrightarrow> sourceport d = None) \<and> (v = outp \<longrightarrow> targetport d = None)"
      by (auto simp add: ports_invariant_def list_all_iff)
    then show "strip_ports inp outp e = e"
      by (simp add: ed strip_ports_def)
  qed
  then show ?thesis by (simp add: map_idI)
qed

text \<open>
  C5. For a well-formed flow graph, \<open>flow_graph_to_graphml\<close> with \<open>outputs='all'\<close>
  followed by \<open>flow_graph_from_graphml\<close> raises nothing and gives a graph with the same
  graph attributes, the same nodes with the same attributes, and the same edges in the
  same order with the same keys and attributes, except that \<open>sourceport\<close> is gone from
  the edges out of the input node and \<open>targetport\<close> from the edges into the output node.
  When the graph had neither (the invariant before serialization), the result is the
  graph itself.
\<close>

theorem graphml_round_trip:
  assumes wf: "well_formed g"
      and io: "graph_input g = Some inp" "graph_output g = Some outp"
  shows "\<exists>outer g'. flow_graph_to_graphml g (Some ''all'') = Inr outer \<and>
           flow_graph_from_graphml outer = Inr g' \<and>
           graph_input g' = graph_input g \<and> graph_output g' = graph_output g \<and>
           nodes g' = nodes g \<and>
           edges g' = map (strip_ports inp outp) (edges g) \<and>
           (ports_invariant g \<longrightarrow> g' = g)"
proof -
  from wf have ids: "\<forall>(u, v, k, d) \<in> set (edges g). u = inp \<longrightarrow> id_of d \<noteq> None"
    by (auto simp add: well_formed_def io edges_have_ids_def list_all_iff)
  obtain es1 ports1 where l1: "input_ports inp (edges g) 0 Map.empty [] = Inr (es1, ports1)"
    and r1: "list_all2 (source_added inp) (edges g) es1"
    using input_ports_total [OF ids] by blast
  have "\<exists>es' ports'. output_ports (Some ''all'') (set_edges g es1) outp [] es1 0 ports1
          = Inr ([] @ es', ports') \<and> list_all2 (target_added outp) es1 es'"
    by (rule output_ports_all) simp_all
  then obtain es2 ports2 where
    l2: "output_ports (Some ''all'') (set_edges g es1) outp [] es1 0 ports1 = Inr (es2, ports2)"
    and r2: "list_all2 (target_added outp) es1 es2"
    by auto
  let ?outer = "MultiDiGraph None None
                  [(''__root__'', NodeData (Some (set_edges g es2)) (Some ports2) [])] []"
  have to_ok: "flow_graph_to_graphml g (Some ''all'') = Inr ?outer"
    unfolding flow_graph_to_graphml_def get_input_node_def get_output_node_def io
    by (simp add: bind_def l1 l2)
  have r12: "list_all2 (\<lambda>x z. \<exists>y. source_added inp x y \<and> target_added outp y z) (edges g) es2"
    by (rule list_all2_compose [OF r1 r2])
  have s2: "\<forall>(u, v, k, d) \<in> set es2. u = inp \<longrightarrow> sourceport d \<noteq> None"
  proof
    fix e assume e: "e \<in> set es2"
    from list_all2_rightD [OF r12 e]
    obtain x y where "source_added inp x y" "target_added outp y e" by blast
    then show "case e of (u, v, k, d) \<Rightarrow> u = inp \<longrightarrow> sourceport d \<noteq> None"
      by (rule ports_then_source)
  qed
  have d1: "del_sourceports inp es2 = Inr (map (clear_sourceport inp) es2)"
    by (rule del_sourceports_map [OF s2])
  have t2: "\<forall>(u, v, k, d) \<in> set (map (clear_sourceport inp) es2). v = outp \<longrightarrow> targetport d \<noteq> None"
  proof
    fix e assume "e \<in> set (map (clear_sourceport inp) es2)"
    then obtain e2 where e2: "e2 \<in> set es2" "e = clear_sourceport inp e2" by auto
    from list_all2_rightD [OF r2 e2(1)]
    obtain y where "target_added outp y e2" by blast
    then show "case e of (u, v, k, d) \<Rightarrow> v = outp \<longrightarrow> targetport d \<noteq> None"
      unfolding e2 by (rule ports_then_target)
  qed
  have d2: "del_targetports outp (map (clear_sourceport inp) es2)
              = Inr (map (clear_targetport outp) (map (clear_sourceport inp) es2))"
    by (rule del_targetports_map [OF t2])
  have fin: "map (clear_targetport outp) (map (clear_sourceport inp) es2)
               = map (strip_ports inp outp) (edges g)"
  proof -
    have "map (\<lambda>e. clear_targetport outp (clear_sourceport inp e)) es2
            = map (strip_ports inp outp) (edges g)"
    proof (rule list_all2_map_eq [OF r12])
      fix x z assume "\<exists>y. source_added inp x y \<and> target_added outp y z"
      then show "clear_targetport outp (clear_sourceport inp z) = strip_ports inp outp x"
        using ports_then_strip by blast
    qed
    then show ?thesis by (simp add: comp_def)
  qed
  let ?g' = "set_edges g (map (strip_ports inp outp) (edges g))"
  have from_ok: "flow_graph_from_graphml ?outer = Inr ?g'"
    unfolding flow_graph_from_graphml_def
    by (simp add: node_attributes_def get_input_node_def get_output_node_def io bind_def
        set_edges_def d1 d2 fin del: map_map)
  have same: "ports_invariant g \<longrightarrow> ?g' = g"
  proof
    assume "ports_invariant g"
    then have "map (strip_ports inp outp) (edges g) = edges g"
      using io by (rule strip_ports_id)
    then show "?g' = g" by (simp add: set_edges_def)
  qed
  have sel: "graph_input ?g' = graph_input g" "graph_output ?g' = graph_output g"
    "nodes ?g' = nodes g" "edges ?g' = map (strip_ports inp outp) (edges g)"
    by (simp_all add: set_edges_def)
  from to_ok from_ok same sel show ?thesis by blast
qed

lemma example_graph_well_formed:
  "well_formed example_graph"
  by (simp add: well_formed_def example_graph_def has_node_def edges_have_ids_def edge_attrs_def)

lemma example_graph_ports_invariant:
  "ports_invariant example_graph"
  by (simp add: ports_invariant_def example_graph_def edge_attrs_def)

theorem graphml_round_trip_witness:
  "well_formed example_graph \<and>
   graph_input example_graph = Some ''__in__'' \<and>
   graph_output example_graph = Some ''__out__'' \<and>
   (\<exists>outer. flow_graph_to_graphml example_graph (Some ''all'') = Inr outer \<and>
      flow_graph_from_graphml outer = Inr example_graph)"
proof -
  have io: "graph_input example_graph = Some ''__in__''"
    "graph_output example_graph = Some ''__out__''"
    by (simp_all add: example_graph_def)
  from graphml_round_trip [OF example_graph_well_formed io] example_graph_ports_invariant
  obtain outer where "flow_graph_to_graphml example_graph (Some ''all'') = Inr outer"
    "flow_graph_from_graphml outer = Inr example_graph"
    by auto
  with example_graph_well_formed io show ?thesis by blast
qed

section \<open>Pruning of outputs\<close>








section \<open>Nodes under the graph operations, and \<open>flatten\<close>\<close>

lemma well_formed_deep_iff:
  "well_formed_deep g = (well_formed g \<and> distinct (map fst (nodes g)) \<and>
     (\<forall>(n, d) \<in> set (nodes g). \<forall>h. nested d = Some h \<longrightarrow> well_formed_deep h))"
proof (cases g)
  case (MultiDiGraph inp outp ns es)
  have "list_all (\<lambda>(n, d). case d of NodeData sub ps as \<Rightarrow>
                  (case sub of None \<Rightarrow> True | Some h \<Rightarrow> well_formed_deep h)) ns
        = (\<forall>(n, d) \<in> set ns. \<forall>h. nested d = Some h \<longrightarrow> well_formed_deep h)"
    unfolding list_all_iff
    by (rule ball_cong) (auto split: node_data.splits option.splits)
  then show ?thesis by (simp add: MultiDiGraph)
qed

lemma set_edges_sel [simp]:
  "nodes (set_edges g es) = nodes g" "edges (set_edges g es) = es"
  "graph_input (set_edges g es) = graph_input g" "graph_output (set_edges g es) = graph_output g"
  by (simp_all add: set_edges_def)

lemma set_nodes_sel [simp]:
  "nodes (set_nodes g ns) = ns" "edges (set_nodes g ns) = edges g"
  "graph_input (set_nodes g ns) = graph_input g" "graph_output (set_nodes g ns) = graph_output g"
  by (simp_all add: set_nodes_def)

lemma add_node_sel [simp]:
  "nodes (add_node g n d) = add_node_list n d (nodes g)" "edges (add_node g n d) = edges g"
  "graph_input (add_node g n d) = graph_input g" "graph_output (add_node g n d) = graph_output g"
  by (simp_all add: add_node_def)

lemma update_data_sel [simp]:
  "nodes (update_data g u v k f) = nodes g"
  "graph_input (update_data g u v k f) = graph_input g"
  "graph_output (update_data g u v k f) = graph_output g"
  by (simp_all add: update_data_def)

lemma nested_update_node_data [simp]:
  "nested (update_node_data old new) = (case nested new of Some h \<Rightarrow> Some h | None \<Rightarrow> nested old)"
  by (simp add: update_node_data_def)

lemma nested_empty_data [simp]: "nested empty_data = None"
  by (simp add: empty_data_def)

lemma add_node_list_names_known:
  "n \<in> fst ` set ns \<Longrightarrow> map fst (add_node_list n d ns) = map fst ns"
proof (induction ns)
  case Nil
  then show ?case by simp
next
  case (Cons x ns)
  obtain n' d' where x: "x = (n', d')" by (cases x) auto
  show ?case
  proof (cases "n = n'")
    case True
    then show ?thesis by (simp add: x)
  next
    case False
    with Cons.prems x have "n \<in> fst ` set ns" by auto
    with Cons.IH False x show ?thesis by simp
  qed
qed

lemma add_node_list_names_new:
  "n \<notin> fst ` set ns \<Longrightarrow> map fst (add_node_list n d ns) = map fst ns @ [n]"
  by (induction ns) auto

lemma add_node_list_names:
  "map fst (add_node_list n d ns) = (if n \<in> fst ` set ns then map fst ns else map fst ns @ [n])"
  by (simp add: add_node_list_names_known add_node_list_names_new)

lemma add_node_list_entries:
  "(m, d') \<in> set (add_node_list n d ns) \<Longrightarrow>
   (m, d') \<in> set ns \<or>
   (m = n \<and> ((\<exists>d0. (n, d0) \<in> set ns \<and> d' = update_node_data d0 d) \<or>
              d' = update_node_data empty_data d))"
  by (induction ns) (auto split: if_splits)

lemma growsI:
  assumes "graph_input g' = graph_input g" "graph_output g' = graph_output g"
    and "distinct (map fst (nodes g)) \<Longrightarrow> distinct (map fst (nodes g'))"
    and "fst ` set (nodes g) \<subseteq> fst ` set (nodes g')"
    and "\<And>m d' h. (m, d') \<in> set (nodes g') \<Longrightarrow> nested d' = Some h \<Longrightarrow>
           \<exists>d. (m, d) \<in> set (nodes g) \<and> nested d = Some h"
  shows "grows g g'"
  unfolding grows_def
proof (intro conjI impI allI)
  show "graph_input g' = graph_input g" by (rule assms(1))
  show "graph_output g' = graph_output g" by (rule assms(2))
  show "distinct (map fst (nodes g')) " if "distinct (map fst (nodes g))"
    using that by (rule assms(3))
  show "fst ` set (nodes g) \<subseteq> fst ` set (nodes g')" by (rule assms(4))
  show "\<exists>d. (m, d) \<in> set (nodes g) \<and> nested d = Some h"
    if "(m, d') \<in> set (nodes g')" "nested d' = Some h" for m d' h
    using that by (rule assms(5))
qed

lemma grows_attrs:
  "grows g g' \<Longrightarrow> graph_input g' = graph_input g"
  "grows g g' \<Longrightarrow> graph_output g' = graph_output g"
  by (simp_all add: grows_def)

lemma grows_distinct:
  "grows g g' \<Longrightarrow> distinct (map fst (nodes g)) \<Longrightarrow> distinct (map fst (nodes g'))"
  by (simp add: grows_def)

lemma grows_names:
  "grows g g' \<Longrightarrow> fst ` set (nodes g) \<subseteq> fst ` set (nodes g')"
  by (simp add: grows_def)

lemma grows_nested:
  assumes "grows g g'" "(m, d') \<in> set (nodes g')" "nested d' = Some h"
  shows "\<exists>d. (m, d) \<in> set (nodes g) \<and> nested d = Some h"
proof -
  from assms(1) have "\<forall>m d' h. (m, d') \<in> set (nodes g') \<longrightarrow> nested d' = Some h \<longrightarrow>
         (\<exists>d. (m, d) \<in> set (nodes g) \<and> nested d = Some h)"
    by (simp add: grows_def)
  with assms(2,3) show ?thesis by blast
qed

lemma grows_same_nodes:
  assumes "nodes g' = nodes g" "graph_input g' = graph_input g" "graph_output g' = graph_output g"
  shows "grows g g'"
proof (rule growsI)
  show "\<exists>d. (m, d) \<in> set (nodes g) \<and> nested d = Some h"
    if "(m, d') \<in> set (nodes g')" "nested d' = Some h" for m d' h
    using that assms(1) by (intro exI [of _ d']) simp
qed (simp_all add: assms)

lemma grows_refl: "grows g g"
  by (rule grows_same_nodes) simp_all

lemma grows_trans:
  assumes "grows g1 g2" "grows g2 g3"
  shows "grows g1 g3"
proof (rule growsI)
  show "graph_input g3 = graph_input g1" "graph_output g3 = graph_output g1"
    using assms by (simp_all add: grows_attrs)
  show "distinct (map fst (nodes g3))" if "distinct (map fst (nodes g1))"
    using that assms by (simp add: grows_distinct)
  show "fst ` set (nodes g1) \<subseteq> fst ` set (nodes g3)"
    using grows_names [OF assms(1)] grows_names [OF assms(2)] by (rule subset_trans)
  show "\<exists>d. (m, d) \<in> set (nodes g1) \<and> nested d = Some h"
    if "(m, d') \<in> set (nodes g3)" "nested d' = Some h" for m d' h
  proof -
    from grows_nested [OF assms(2) that] obtain d2 where
      "(m, d2) \<in> set (nodes g2)" "nested d2 = Some h" by blast
    then show ?thesis by (rule grows_nested [OF assms(1)])
  qed
qed

lemma grows_set_edges: "grows g (set_edges g es)"
  by (rule grows_same_nodes) simp_all

lemma grows_update_data: "grows g (update_data g u v k f)"
  by (rule grows_same_nodes) simp_all

lemma grows_add_node:
  assumes "nested d = None"
  shows "grows g (add_node g n d)"
proof (rule growsI)
  show "graph_input (add_node g n d) = graph_input g" by simp
  show "graph_output (add_node g n d) = graph_output g" by simp
  show "distinct (map fst (nodes (add_node g n d)))" if "distinct (map fst (nodes g))"
    using that by (simp add: add_node_list_names)
  show "fst ` set (nodes g) \<subseteq> fst ` set (nodes (add_node g n d))"
  proof -
    have "set (map fst (nodes g)) \<subseteq> set (map fst (add_node_list n d (nodes g)))"
      unfolding add_node_list_names by auto
    then show ?thesis by simp
  qed
  show "\<exists>d0. (m, d0) \<in> set (nodes g) \<and> nested d0 = Some h"
    if a: "(m, d') \<in> set (nodes (add_node g n d))" and h: "nested d' = Some h" for m d' h
  proof -
    from a have "(m, d') \<in> set (add_node_list n d (nodes g))" by simp
    from add_node_list_entries [OF this]
    consider "(m, d') \<in> set (nodes g)"
      | d0 where "m = n" "(n, d0) \<in> set (nodes g)" "d' = update_node_data d0 d"
      | "d' = update_node_data empty_data d"
      by blast
    then show ?thesis
    proof cases
      case 1
      with h show ?thesis by blast
    next
      case 2
      with h assms have "nested d0 = Some h" by simp
      with 2 show ?thesis by blast
    next
      case 3
      with h assms show ?thesis by simp
    qed
  qed
qed

lemma grows_add_edge: "grows g (add_edge g u v d)"
proof -
  let ?g1 = "if has_node g u then g else add_node g u empty_data"
  let ?g2 = "if has_node ?g1 v then ?g1 else add_node ?g1 v empty_data"
  have 1: "grows g ?g1" by (simp add: grows_refl grows_add_node)
  have 2: "grows ?g1 ?g2" by (simp add: grows_refl grows_add_node)
  have 3: "grows ?g2 (set_edges ?g2 (edges ?g2 @ [(u, v, new_edge_key ?g2 u v, d)]))"
    by (rule grows_set_edges)
  have "add_edge g u v d = set_edges ?g2 (edges ?g2 @ [(u, v, new_edge_key ?g2 u v, d)])"
    by (simp add: add_edge_def Let_def)
  with grows_trans [OF grows_trans [OF 1 2] 3] show ?thesis by simp
qed

lemma grows_fold:
  "(\<And>x g. x \<in> set xs \<Longrightarrow> grows g (f x g)) \<Longrightarrow> grows g (fold f xs g)"
proof (induction xs arbitrary: g)
  case Nil
  show ?case by (simp add: grows_refl)
next
  case (Cons x xs)
  have "grows g (f x g)" by (rule Cons.prems) simp
  moreover have "grows (f x g) (fold f xs (f x g))"
    by (rule Cons.IH) (simp add: Cons.prems)
  ultimately show ?case using grows_trans by auto
qed

lemma grows_fold_err:
  "(\<And>x g g'. x \<in> set xs \<Longrightarrow> f x g = Inr g' \<Longrightarrow> grows g g') \<Longrightarrow>
   fold_err f xs g = Inr g' \<Longrightarrow> grows g g'"
proof (induction xs arbitrary: g)
  case Nil
  then show ?case by (simp add: grows_refl)
next
  case (Cons x xs)
  from Cons.prems(2) obtain g1 where g1: "f x g = Inr g1" "fold_err f xs g1 = Inr g'"
    by (cases "f x g") auto
  have "grows g g1" by (rule Cons.prems(1) [OF _ g1(1)]) simp
  moreover have "grows g1 g'"
  proof (rule Cons.IH [OF _ g1(2)])
    fix y h h' assume "y \<in> set xs" "f y h = Inr h'"
    then show "grows h h'" by (intro Cons.prems(1) [of y h h']) simp_all
  qed
  ultimately show ?case using grows_trans by blast
qed

lemma copy_flow_graph_unfold:
  assumes "copy_flow_graph s g = Inr g'"
  shows "\<exists>s0 s1. graph_input s = Some s0 \<and> graph_output s = Some s1 \<and>
     g' = fold (\<lambda>(u, v, k, d) g. add_edge g u v d)
            (filter (\<lambda>(u, v, k, d). (u \<noteq> s0 \<and> u \<noteq> s1) \<and> (v \<noteq> s0 \<and> v \<noteq> s1)) (edges s))
            (fold (\<lambda>(n, d) g. add_node g n d)
               (filter (\<lambda>(n, d). n \<noteq> s0 \<and> n \<noteq> s1) (nodes s)) g)"
proof (cases "graph_input s")
  case None
  with assms show ?thesis by (simp add: copy_flow_graph_def get_input_node_def)
next
  case (Some s0)
  show ?thesis
  proof (cases "graph_output s")
    case None
    with assms Some show ?thesis
      by (simp add: copy_flow_graph_def get_input_node_def get_output_node_def)
  next
    case s1: (Some s1)
    with assms Some show ?thesis
      by (simp add: copy_flow_graph_def get_input_node_def get_output_node_def Let_def)
  qed
qed

lemma grows_copy_flow_graph:
  assumes "copy_flow_graph s g = Inr g'" "all_atomic s"
  shows "grows g g'"
proof -
  from copy_flow_graph_unfold [OF assms(1)] obtain s0 s1 where
    g': "g' = fold (\<lambda>(u, v, k, d) g. add_edge g u v d)
            (filter (\<lambda>(u, v, k, d). (u \<noteq> s0 \<and> u \<noteq> s1) \<and> (v \<noteq> s0 \<and> v \<noteq> s1)) (edges s))
            (fold (\<lambda>(n, d) g. add_node g n d)
               (filter (\<lambda>(n, d). n \<noteq> s0 \<and> n \<noteq> s1) (nodes s)) g)"
    by blast
  let ?ns = "filter (\<lambda>(n, d). n \<noteq> s0 \<and> n \<noteq> s1) (nodes s)"
  let ?d1 = "fold (\<lambda>(n, d) g. add_node g n d) ?ns g"
  have 1: "grows g ?d1"
  proof (rule grows_fold)
    fix x g0 assume "x \<in> set ?ns"
    then have "x \<in> set (nodes s)" by simp
    with assms(2) have "nested (snd x) = None"
      by (auto simp add: all_atomic_def list_all_iff)
    then show "grows g0 ((\<lambda>(n, d) g. add_node g n d) x g0)"
      by (cases x) (simp add: grows_add_node)
  qed
  have 2: "grows ?d1 (fold (\<lambda>(u, v, k, d) g. add_edge g u v d)
            (filter (\<lambda>(u, v, k, d). (u \<noteq> s0 \<and> u \<noteq> s1) \<and> (v \<noteq> s0 \<and> v \<noteq> s1)) (edges s)) ?d1)"
  proof (rule grows_fold)
    fix x :: edge and g0
    show "grows g0 ((\<lambda>(u, v, k, d) g. add_edge g u v d) x g0)"
      by (cases x) (simp add: grows_add_edge)
  qed
  from grows_trans [OF 1 2] g' show ?thesis by simp
qed

lemma grows_rewire_input:
  assumes "rewire_input graph node input_node e = Inr g'"
  shows "grows graph g'"
proof -
  obtain u tgt k d where e: "e = (u, tgt, k, d)" by (cases e) auto
  show ?thesis
  proof (cases "data_id d")
    case (Inl err)
    with assms e show ?thesis by (simp add: rewire_input_def)
  next
    case i: (Inr obj_id)
    show ?thesis
    proof (cases "data_targetport d")
      case (Inl err)
      with assms e i show ?thesis by (simp add: rewire_input_def)
    next
      case t: (Inr tgt_port)
      show ?thesis
      proof (cases "find_in_edge (in_edges graph node) obj_id")
        case (Inl err)
        with assms e i t show ?thesis by (simp add: rewire_input_def)
      next
        case f: (Inr found)
        show ?thesis
        proof (cases found)
          case None
          with assms e i t f obtain data where "g' = add_edge graph input_node tgt data"
            by (auto simp add: rewire_input_def Let_def)
          then show ?thesis by (simp add: grows_add_edge)
        next
          case (Some x)
          obtain src v k' data where x: "x = (src, v, k', data)" by (cases x) auto
          from assms e i t f Some x
          have "g' = add_edge (update_data graph src v k' (\<lambda>d. d\<lparr>targetport := None\<rparr>)) src tgt
                  (data\<lparr>targetport := Some tgt_port\<rparr>)"
            by (simp add: rewire_input_def Let_def)
          then show ?thesis
            using grows_trans [OF grows_update_data grows_add_edge] by simp
        qed
      qed
    qed
  qed
qed

lemma grows_rewire_out_edges:
  "rewire_out_edges graph node src obj_id src_port es = Inr g' \<Longrightarrow> grows graph g'"
proof (induction es arbitrary: graph)
  case Nil
  then show ?case by (simp add: grows_refl)
next
  case (Cons e es)
  obtain u tgt k d where e: "e = (u, tgt, k, d)" by (cases e) auto
  from Cons.prems e obtain j where j: "data_id d = Inr j"
    by (cases "data_id d") auto
  show ?case
  proof (cases "j = obj_id")
    case False
    with Cons.prems e j have "rewire_out_edges graph node src obj_id src_port es = Inr g'"
      by simp
    then show ?thesis by (rule Cons.IH)
  next
    case True
    let ?g = "add_edge (update_data graph u tgt k (\<lambda>d. d\<lparr>sourceport := None\<rparr>)) src tgt
                (d\<lparr>sourceport := Some src_port\<rparr>)"
    from Cons.prems e j True have "rewire_out_edges ?g node src obj_id src_port es = Inr g'"
      by (simp add: Let_def split: if_splits)
    then have "grows ?g g'" by (rule Cons.IH)
    moreover have "grows graph ?g"
      using grows_trans [OF grows_update_data grows_add_edge] by simp
    ultimately show ?thesis by (rule grows_trans [rotated])
  qed
qed

lemma grows_rewire_output:
  assumes "rewire_output graph node e = Inr g'"
  shows "grows graph g'"
proof -
  obtain src v k d where e: "e = (src, v, k, d)" by (cases e) auto
  from assms e obtain obj_id src_port where
    "rewire_out_edges graph node src obj_id src_port (out_edges graph node) = Inr g'"
    by (auto simp add: rewire_output_def bind_def split: sum.splits)
  then show ?thesis by (rule grows_rewire_out_edges)
qed

lemma remove_node_nodes:
  assumes "remove_node g n = Inr g'"
  shows "nodes g' = filter (\<lambda>(n', d). n' \<noteq> n) (nodes g)"
    "graph_input g' = graph_input g" "graph_output g' = graph_output g"
  using assms by (auto simp add: remove_node_def split: if_splits)

lemma well_formed_nonempty:
  "well_formed g \<Longrightarrow> nodes g \<noteq> []"
  by (auto simp add: well_formed_def has_node_def split: option.splits)

lemma flatten_node_cases:
  assumes "flatten_node rec inp n graph = Inr graph'"
  obtains (skip) nd where "map_of (nodes graph) n = Some nd"
      "nested nd = None \<or> (\<exists>sub. nested nd = Some sub \<and> nodes sub = [])" "graph' = graph"
  | (inline) nd sub sub' g3 where "map_of (nodes graph) n = Some nd"
      "nested nd = Some sub" "nodes sub \<noteq> []" "rec sub = Inr sub'"
      "all_atomic sub' \<longrightarrow> grows graph g3" "remove_node g3 n = Inr graph'"
proof (cases "map_of (nodes graph) n")
  case None
  with assms show ?thesis by (simp add: flatten_node_def node_attributes_def)
next
  case (Some nd)
  show ?thesis
  proof (cases "nested nd")
    case None
    with assms Some have "graph' = graph"
      by (simp add: flatten_node_def node_attributes_def)
    with Some None show ?thesis by (intro skip [of nd]) simp_all
  next
    case sub: (Some sub)
    show ?thesis
    proof (cases "nodes sub = []")
      case True
      with assms Some sub have "graph' = graph"
        by (simp add: flatten_node_def node_attributes_def)
      with Some sub True show ?thesis by (intro skip [of nd]) simp_all
    next
      case False
      from assms Some sub False have r: "bind (rec sub) (\<lambda>subgraph.
             bind (get_input_node subgraph) (\<lambda>sub_input_node.
             bind (get_output_node subgraph) (\<lambda>sub_output_node.
             bind (copy_flow_graph subgraph graph) (\<lambda>graph.
             bind (fold_err (\<lambda>e g. rewire_input g n inp e)
                     (out_edges subgraph sub_input_node) graph) (\<lambda>graph.
             bind (fold_err (\<lambda>e g. rewire_output g n e)
                     (in_edges subgraph sub_output_node) graph) (\<lambda>graph.
               remove_node graph n)))))) = Inr graph'"
        by (simp add: flatten_node_def node_attributes_def)
      then obtain sub' where s': "rec sub = Inr sub'" by (cases "rec sub") auto
      from r s' obtain si where si: "get_input_node sub' = Inr si"
        by (cases "get_input_node sub'") auto
      from r s' si obtain so where so: "get_output_node sub' = Inr so"
        by (cases "get_output_node sub'") auto
      from r s' si so obtain g1 where g1: "copy_flow_graph sub' graph = Inr g1"
        by (cases "copy_flow_graph sub' graph") auto
      from r s' si so g1 obtain g2 where
        g2: "fold_err (\<lambda>e g. rewire_input g n inp e) (out_edges sub' si) g1 = Inr g2"
        by (cases "fold_err (\<lambda>e g. rewire_input g n inp e) (out_edges sub' si) g1") auto
      from r s' si so g1 g2 obtain g3 where
        g3: "fold_err (\<lambda>e g. rewire_output g n e) (in_edges sub' so) g2 = Inr g3"
        by (cases "fold_err (\<lambda>e g. rewire_output g n e) (in_edges sub' so) g2") auto
      from r s' si so g1 g2 g3 have rm: "remove_node g3 n = Inr graph'" by simp
      have "all_atomic sub' \<longrightarrow> grows graph g3"
      proof
        assume "all_atomic sub'"
        with g1 have 1: "grows graph g1" by (rule grows_copy_flow_graph)
        have 2: "grows g1 g2"
          by (rule grows_fold_err [OF _ g2]) (rule grows_rewire_input)
        have 3: "grows g2 g3"
          by (rule grows_fold_err [OF _ g3]) (rule grows_rewire_output)
        from grows_trans [OF grows_trans [OF 1 2] 3] show "grows graph g3" .
      qed
      with Some sub False s' rm show ?thesis by (intro inline [of nd sub sub' g3]) simp_all
    qed
  qed
qed

lemma atomic_node_iff:
  "atomic_node g m = (has_node g m \<and> (\<forall>d. (m, d) \<in> set (nodes g) \<longrightarrow> nested d = None))"
  by (auto simp add: atomic_node_def list_all_iff)

lemma carriers_inD:
  "carriers_in g ns \<Longrightarrow> (m, d) \<in> set (nodes g) \<Longrightarrow> nested d = Some h \<Longrightarrow>
   m \<in> set ns \<and> well_formed_deep h"
  unfolding carriers_in_def by blast

lemma flatten_node_step:
  assumes rec: "\<And>h h'. well_formed_deep h \<Longrightarrow> rec h = Inr h' \<Longrightarrow> all_atomic h'"
    and step: "flatten_node rec inp n graph = Inr g1"
    and dist: "distinct (map fst (nodes graph))"
    and car: "carriers_in graph (n # ns)"
  shows "distinct (map fst (nodes g1)) \<and> carriers_in g1 ns \<and>
         graph_input g1 = graph_input graph \<and> graph_output g1 = graph_output graph \<and>
         (\<forall>m. atomic_node graph m \<longrightarrow> atomic_node g1 m)"
  using step
proof (cases rule: flatten_node_cases)
  case (skip nd)
  from skip(1) have mem: "(n, nd) \<in> set (nodes graph)" by (rule map_of_SomeD)
  have none: "nested nd = None"
  proof (cases "nested nd")
    case None
    then show ?thesis .
  next
    case (Some sub)
    with carriers_inD [OF car mem] have "well_formed_deep sub" by simp
    then have "nodes sub \<noteq> []"
      using well_formed_nonempty well_formed_deep_iff by blast
    with skip(2) Some show ?thesis by simp
  qed
  have "carriers_in graph ns"
    unfolding carriers_in_def
  proof (intro allI impI)
    fix m d h assume a: "(m, d) \<in> set (nodes graph)" "nested d = Some h"
    from carriers_inD [OF car a] have b: "m \<in> set (n # ns)" "well_formed_deep h" by simp_all
    have "m \<noteq> n"
    proof
      assume "m = n"
      with a(1) mem dist have "d = nd" by (meson eq_key_imp_eq_value)
      with a(2) none show False by simp
    qed
    with b show "m \<in> set ns \<and> well_formed_deep h" by simp
  qed
  with skip(3) dist show ?thesis by simp
next
  case (inline nd sub sub' g3)
  from inline(1) have mem: "(n, nd) \<in> set (nodes graph)" by (rule map_of_SomeD)
  from carriers_inD [OF car mem inline(2)] have "well_formed_deep sub" by simp
  from rec [OF this inline(4)] inline(5) have gr: "grows graph g3" by simp
  note rm = remove_node_nodes [OF inline(6)]
  have d1: "distinct (map fst (nodes g1))"
    unfolding rm(1) using grows_distinct [OF gr dist] by (simp add: distinct_map_filter)
  have c1: "carriers_in g1 ns"
    unfolding carriers_in_def
  proof (intro allI impI)
    fix m d h assume a: "(m, d) \<in> set (nodes g1)" "nested d = Some h"
    from a(1) have m: "(m, d) \<in> set (nodes g3)" "m \<noteq> n" unfolding rm(1) by auto
    from grows_nested [OF gr m(1) a(2)] obtain d0 where
      "(m, d0) \<in> set (nodes graph)" "nested d0 = Some h" by blast
    from carriers_inD [OF car this] m(2) show "m \<in> set ns \<and> well_formed_deep h" by simp
  qed
  have a1: "\<forall>m. atomic_node graph m \<longrightarrow> atomic_node g1 m"
  proof (intro allI impI)
    fix m assume at: "atomic_node graph m"
    with mem inline(2) have mn: "m \<noteq> n" by (auto simp add: atomic_node_iff)
    from at have "m \<in> fst ` set (nodes graph)" by (simp add: atomic_node_iff has_node_def)
    with grows_names [OF gr] have "m \<in> fst ` set (nodes g3)" by blast
    with mn have h: "has_node g1 m" unfolding has_node_def rm(1) by force
    have "nested d = None" if "(m, d) \<in> set (nodes g1)" for d
    proof (cases "nested d")
      case None
      then show ?thesis .
    next
      case (Some h)
      from that have "(m, d) \<in> set (nodes g3)" unfolding rm(1) by auto
      from grows_nested [OF gr this Some] at show ?thesis by (auto simp add: atomic_node_iff)
    qed
    with h show "atomic_node g1 m" by (simp add: atomic_node_iff)
  qed
  from d1 c1 a1 rm(2,3) grows_attrs [OF gr] show ?thesis by simp
qed

lemma flatten_loop:
  assumes rec: "\<And>h h'. well_formed_deep h \<Longrightarrow> rec h = Inr h' \<Longrightarrow> all_atomic h'"
  shows "fold_err (flatten_node rec inp) ns graph = Inr g' \<Longrightarrow>
         distinct (map fst (nodes graph)) \<Longrightarrow> carriers_in graph ns \<Longrightarrow>
         all_atomic g' \<and> distinct (map fst (nodes g')) \<and>
         graph_input g' = graph_input graph \<and> graph_output g' = graph_output graph \<and>
         (\<forall>m. atomic_node graph m \<longrightarrow> atomic_node g' m)"
proof (induction ns arbitrary: graph)
  case Nil
  then have "g' = graph" by simp
  moreover have "all_atomic graph"
    using Nil.prems(3) unfolding all_atomic_def carriers_in_def list_all_iff
    by (auto simp add: case_prod_beta)
  ultimately show ?case using Nil.prems(2) by simp
next
  case (Cons n ns)
  from Cons.prems(1) obtain g1 where
    g1: "flatten_node rec inp n graph = Inr g1" "fold_err (flatten_node rec inp) ns g1 = Inr g'"
    by (cases "flatten_node rec inp n graph") auto
  from flatten_node_step [OF rec g1(1) Cons.prems(2,3)]
  have s: "distinct (map fst (nodes g1))" "carriers_in g1 ns"
    "graph_input g1 = graph_input graph" "graph_output g1 = graph_output graph"
    "\<forall>m. atomic_node graph m \<longrightarrow> atomic_node g1 m"
    by simp_all
  from Cons.IH [OF g1(2) s(1,2)] s(3,4,5) show ?case by simp
qed

lemma flatten_atomic:
  "well_formed_deep g \<Longrightarrow> flatten limit g copy = Inr g' \<Longrightarrow>
   all_atomic g' \<and> distinct (map fst (nodes g')) \<and>
   graph_input g' = graph_input g \<and> graph_output g' = graph_output g \<and>
   (\<forall>m. atomic_node g m \<longrightarrow> atomic_node g' m)"
proof (induction limit arbitrary: g copy g')
  case 0
  then show ?case by simp
next
  case (Suc limit)
  from Suc.prems(2) obtain inp where inp: "get_input_node g = Inr inp"
    by (cases "get_input_node g") auto
  from Suc.prems(2) inp obtain outp where outp: "get_output_node g = Inr outp"
    by (cases "get_output_node g") auto
  from Suc.prems(2) inp outp
  have loop: "fold_err (flatten_node (\<lambda>subgraph. flatten limit subgraph False) inp)
                (map fst (nodes g)) g = Inr g'"
    by simp
  have rec: "\<And>h h'. well_formed_deep h \<Longrightarrow> flatten limit h False = Inr h' \<Longrightarrow> all_atomic h'"
    using Suc.IH by blast
  from Suc.prems(1) have wf: "distinct (map fst (nodes g))"
    "\<forall>(n, d) \<in> set (nodes g). \<forall>h. nested d = Some h \<longrightarrow> well_formed_deep h"
    using well_formed_deep_iff [of g] by simp_all
  have car: "carriers_in g (map fst (nodes g))"
    unfolding carriers_in_def using wf(2) by force
  from flatten_loop [of "\<lambda>subgraph. flatten limit subgraph False", OF rec loop wf(1) car]
  show ?case .
qed

lemma flatten_loop_atomic:
  "all_atomic graph \<Longrightarrow> set ns \<subseteq> fst ` set (nodes graph) \<Longrightarrow>
   fold_err (flatten_node rec inp) ns graph = Inr graph"
proof (induction ns)
  case Nil
  show ?case by simp
next
  case (Cons n ns)
  from Cons.prems(2) obtain nd where nd: "map_of (nodes graph) n = Some nd"
    by (cases "map_of (nodes graph) n") (auto simp add: map_of_eq_None_iff)
  then have "(n, nd) \<in> set (nodes graph)" by (rule map_of_SomeD)
  with Cons.prems(1) have "nested nd = None"
    by (auto simp add: all_atomic_def list_all_iff)
  with nd have "flatten_node rec inp n graph = Inr graph"
    by (simp add: flatten_node_def node_attributes_def)
  with Cons show ?case by simp
qed

lemma flatten_again:
  assumes "all_atomic g" "graph_input g = Some inp" "graph_output g = Some outp"
  shows "flatten (Suc limit) g copy = Inr g"
  using assms flatten_loop_atomic [of g "map fst (nodes g)"]
  by (simp add: get_input_node_def get_output_node_def)

text \<open>
  C4. For a flow graph that is well formed at every depth, whenever \<open>flatten\<close> returns a
  graph, a second \<open>flatten\<close> of that graph returns the very same graph, and no node of it
  carries a nested graph.
\<close>

theorem flatten_idempotent:
  assumes "well_formed_deep g" and "flatten limit g copy = Inr g'"
  shows "flatten limit g' copy = Inr g' \<and> all_atomic g'"
proof -
  from flatten_atomic [OF assms]
  have at: "all_atomic g'" and io: "graph_input g' = graph_input g" "graph_output g' = graph_output g"
    by simp_all
  from assms(1) have "well_formed g" using well_formed_deep_iff by blast
  then obtain inp outp where "graph_input g = Some inp" "graph_output g = Some outp"
    by (auto simp add: well_formed_def split: option.splits)
  with io have io': "graph_input g' = Some inp" "graph_output g' = Some outp" by simp_all
  from assms(2) obtain l where "limit = Suc l" by (cases limit) auto
  with flatten_again [OF at io'] at show ?thesis by simp
qed

lemma nested_example_deep: "well_formed_deep nested_example"
  by code_simp

lemma flatten_nested_example: "flatten 3 nested_example True = Inr inner_graph"
  by code_simp

theorem flatten_idempotent_witness:
  "well_formed_deep nested_example \<and>
   flatten 3 nested_example True = Inr inner_graph \<and>
   flatten 3 inner_graph True = Inr inner_graph \<and>
   all_atomic inner_graph"
  using flatten_idempotent [OF nested_example_deep flatten_nested_example]
    nested_example_deep flatten_nested_example
  by simp

section \<open>The sentinels are never removed\<close>

lemma keeps_nodes_refl: "keeps_nodes g g"
  by (simp add: keeps_nodes_def)

lemma keeps_nodes_trans:
  assumes "keeps_nodes g1 g2" "keeps_nodes g2 g3"
  shows "keeps_nodes g1 g3"
proof -
  from assms have "fst ` set (nodes g1) \<subseteq> fst ` set (nodes g2)"
    "fst ` set (nodes g2) \<subseteq> fst ` set (nodes g3)"
    by (simp_all add: keeps_nodes_def)
  then have "fst ` set (nodes g1) \<subseteq> fst ` set (nodes g3)" by (rule subset_trans)
  with assms show ?thesis by (simp add: keeps_nodes_def)
qed

lemma keeps_nodes_sentinels: "keeps_nodes g g' \<Longrightarrow> has_sentinels g \<Longrightarrow> has_sentinels g'"
  unfolding keeps_nodes_def has_sentinels_def has_node_def
  by (auto split: option.splits)

lemma keeps_nodes_add_node: "keeps_nodes g (add_node g n d)"
proof -
  have "set (map fst (nodes g)) \<subseteq> set (map fst (add_node_list n d (nodes g)))"
    unfolding add_node_list_names by auto
  then show ?thesis by (simp add: keeps_nodes_def)
qed

lemma keeps_nodes_set_edges: "keeps_nodes g (set_edges g es)"
  by (simp add: keeps_nodes_def)

lemma keeps_nodes_add_edge: "keeps_nodes g (add_edge g u v d)"
proof -
  let ?g1 = "if has_node g u then g else add_node g u empty_data"
  let ?g2 = "if has_node ?g1 v then ?g1 else add_node ?g1 v empty_data"
  have 1: "keeps_nodes g ?g1" by (simp add: keeps_nodes_refl keeps_nodes_add_node)
  have 2: "keeps_nodes ?g1 ?g2" by (simp add: keeps_nodes_refl keeps_nodes_add_node)
  have 3: "keeps_nodes ?g2 (set_edges ?g2 (edges ?g2 @ [(u, v, new_edge_key ?g2 u v, d)]))"
    by (rule keeps_nodes_set_edges)
  have "add_edge g u v d = set_edges ?g2 (edges ?g2 @ [(u, v, new_edge_key ?g2 u v, d)])"
    by (simp add: add_edge_def Let_def)
  with keeps_nodes_trans [OF keeps_nodes_trans [OF 1 2] 3] show ?thesis by simp
qed

lemma keeps_nodes_remove_edge: "remove_edge g u v k = Inr g' \<Longrightarrow> keeps_nodes g g'"
  by (auto simp add: remove_edge_def keeps_nodes_def split: if_splits)

lemma keeps_nodes_fold:
  "(\<And>x g. x \<in> set xs \<Longrightarrow> keeps_nodes g (f x g)) \<Longrightarrow> keeps_nodes g (fold f xs g)"
proof (induction xs arbitrary: g)
  case Nil
  show ?case by (simp add: keeps_nodes_refl)
next
  case (Cons x xs)
  have "keeps_nodes g (f x g)" by (rule Cons.prems) simp
  moreover have "keeps_nodes (f x g) (fold f xs (f x g))"
    by (rule Cons.IH) (simp add: Cons.prems)
  ultimately show ?case using keeps_nodes_trans by auto
qed

lemma keeps_nodes_fold_err:
  "(\<And>x g g'. x \<in> set xs \<Longrightarrow> f x g = Inr g' \<Longrightarrow> keeps_nodes g g') \<Longrightarrow>
   fold_err f xs g = Inr g' \<Longrightarrow> keeps_nodes g g'"
proof (induction xs arbitrary: g)
  case Nil
  then show ?case by (simp add: keeps_nodes_refl)
next
  case (Cons x xs)
  from Cons.prems(2) obtain g1 where g1: "f x g = Inr g1" "fold_err f xs g1 = Inr g'"
    by (cases "f x g") auto
  have "keeps_nodes g g1" by (rule Cons.prems(1) [OF _ g1(1)]) simp
  moreover have "keeps_nodes g1 g'"
  proof (rule Cons.IH [OF _ g1(2)])
    fix y h h' assume "y \<in> set xs" "f y h = Inr h'"
    then show "keeps_nodes h h'" by (intro Cons.prems(1) [of y h h']) simp_all
  qed
  ultimately show ?case using keeps_nodes_trans by blast
qed

lemma keeps_nodes_copy_flow_graph:
  assumes "copy_flow_graph s g = Inr g'"
  shows "keeps_nodes g g'"
proof -
  from copy_flow_graph_unfold [OF assms] obtain s0 s1 where
    g': "g' = fold (\<lambda>(u, v, k, d) g. add_edge g u v d)
            (filter (\<lambda>(u, v, k, d). (u \<noteq> s0 \<and> u \<noteq> s1) \<and> (v \<noteq> s0 \<and> v \<noteq> s1)) (edges s))
            (fold (\<lambda>(n, d) g. add_node g n d)
               (filter (\<lambda>(n, d). n \<noteq> s0 \<and> n \<noteq> s1) (nodes s)) g)"
    by blast
  let ?d1 = "fold (\<lambda>(n, d) g. add_node g n d) (filter (\<lambda>(n, d). n \<noteq> s0 \<and> n \<noteq> s1) (nodes s)) g"
  have 1: "keeps_nodes g ?d1"
  proof (rule keeps_nodes_fold)
    fix x :: "node \<times> node_data" and g0
    show "keeps_nodes g0 ((\<lambda>(n, d) g. add_node g n d) x g0)"
      by (cases x) (simp add: keeps_nodes_add_node)
  qed
  have 2: "keeps_nodes ?d1 (fold (\<lambda>(u, v, k, d) g. add_edge g u v d)
            (filter (\<lambda>(u, v, k, d). (u \<noteq> s0 \<and> u \<noteq> s1) \<and> (v \<noteq> s0 \<and> v \<noteq> s1)) (edges s)) ?d1)"
  proof (rule keeps_nodes_fold)
    fix x :: edge and g0
    show "keeps_nodes g0 ((\<lambda>(u, v, k, d) g. add_edge g u v d) x g0)"
      by (cases x) (simp add: keeps_nodes_add_edge)
  qed
  from keeps_nodes_trans [OF 1 2] g' show ?thesis by simp
qed

lemma keeps_nodes_join_input:
  assumes "join_input input_node output_node output_table e graph = Inr g'"
  shows "keeps_nodes graph g'"
proof -
  obtain u tgt k d where e: "e = (u, tgt, k, d)" by (cases e) auto
  show ?thesis
  proof (cases "data_id d")
    case (Inl err)
    with assms e show ?thesis by (simp add: join_input_def)
  next
    case i: (Inr i)
    show ?thesis
    proof (cases "output_table i")
      case None
      with assms e i have "g' = add_edge graph input_node tgt d"
        by (simp add: join_input_def)
      then show ?thesis by (simp add: keeps_nodes_add_edge)
    next
      case (Some x)
      obtain src key where x: "x = (src, key)" by (cases x) auto
      from assms e i Some x obtain d' where "g' = add_edge graph src tgt d'"
        by (auto simp add: join_input_def bind_def split: sum.splits if_splits)
      then show ?thesis by (simp add: keeps_nodes_add_edge)
    qed
  qed
qed

lemma keeps_nodes_join_output:
  assumes "join_output output_node output_table e graph = Inr g'"
  shows "keeps_nodes graph g'"
proof -
  obtain src v k d where e: "e = (src, v, k, d)" by (cases e) auto
  show ?thesis
  proof (cases "data_id d")
    case (Inl err)
    with assms e show ?thesis by (simp add: join_output_def)
  next
    case i: (Inr i)
    show ?thesis
    proof (cases "output_table i")
      case None
      with assms e i have "g' = add_edge graph src output_node d"
        by (simp add: join_output_def)
      then show ?thesis by (simp add: keeps_nodes_add_edge)
    next
      case (Some x)
      obtain old key where x: "x = (old, key)" by (cases x) auto
      from assms e i Some x obtain g1 where
        g1: "remove_edge graph old output_node key = Inr g1" "g' = add_edge g1 src output_node d"
        by (cases "remove_edge graph old output_node key") (auto simp add: join_output_def)
      from keeps_nodes_trans [OF keeps_nodes_remove_edge [OF g1(1)] keeps_nodes_add_edge] g1(2)
      show ?thesis by simp
    qed
  qed
qed

lemma keeps_nodes_join:
  assumes "join first second copy = Inr g"
  shows "keeps_nodes first g"
proof -
  from assms obtain inp where inp: "get_input_node first = Inr inp"
    by (cases "get_input_node first") (auto simp add: join_def)
  from assms inp obtain outp where outp: "get_output_node first = Inr outp"
    by (cases "get_output_node first") (auto simp add: join_def)
  from assms inp outp obtain table where
    table: "build_output_table (in_edges first outp) Map.empty = Inr table"
    by (cases "build_output_table (in_edges first outp) Map.empty") (auto simp add: join_def)
  from assms inp outp table obtain g1 where g1: "copy_flow_graph second first = Inr g1"
    by (cases "copy_flow_graph second first") (auto simp add: join_def)
  from assms inp outp table g1 obtain si where si: "get_input_node second = Inr si"
    by (cases "get_input_node second") (auto simp add: join_def)
  from assms inp outp table g1 si obtain g2 where
    g2: "fold_err (join_input inp outp table) (out_edges second si) g1 = Inr g2"
    by (cases "fold_err (join_input inp outp table) (out_edges second si) g1")
      (auto simp add: join_def)
  from assms inp outp table g1 si g2 obtain so where so: "get_output_node second = Inr so"
    by (cases "get_output_node second") (auto simp add: join_def)
  from assms inp outp table g1 si g2 so
  have g3: "fold_err (join_output outp table) (in_edges second so) g2 = Inr g"
    by (simp add: join_def)
  have 1: "keeps_nodes first g1" using g1 by (rule keeps_nodes_copy_flow_graph)
  have 2: "keeps_nodes g1 g2"
    by (rule keeps_nodes_fold_err [OF _ g2]) (rule keeps_nodes_join_input)
  have 3: "keeps_nodes g2 g"
    by (rule keeps_nodes_fold_err [OF _ g3]) (rule keeps_nodes_join_output)
  from keeps_nodes_trans [OF keeps_nodes_trans [OF 1 2] 3] show ?thesis .
qed

lemma to_graphml_shape:
  assumes "flow_graph_to_graphml g outputs = Inr outer"
  shows "\<exists>es ports. outer = MultiDiGraph None None
           [(''__root__'', NodeData (Some (set_edges g es)) (Some ports) [])] []"
proof -
  from assms obtain inp where inp: "get_input_node g = Inr inp"
    by (cases "get_input_node g") (auto simp add: flow_graph_to_graphml_def)
  from assms inp obtain outp where outp: "get_output_node g = Inr outp"
    by (cases "get_output_node g") (auto simp add: flow_graph_to_graphml_def)
  from assms inp outp obtain r1 where r1: "input_ports inp (edges g) 0 Map.empty [] = Inr r1"
    by (cases "input_ports inp (edges g) 0 Map.empty []") (auto simp add: flow_graph_to_graphml_def)
  obtain es1 ports1 where p1: "r1 = (es1, ports1)" by (cases r1) auto
  from assms inp outp r1 p1 obtain r2 where
    r2: "output_ports outputs (set_edges g es1) outp [] es1 0 ports1 = Inr r2"
    by (cases "output_ports outputs (set_edges g es1) outp [] es1 0 ports1")
      (auto simp add: flow_graph_to_graphml_def)
  obtain es2 ports2 where p2: "r2 = (es2, ports2)" by (cases r2) auto
  from assms inp outp r1 p1 r2 p2
  have "outer = MultiDiGraph None None
           [(''__root__'', NodeData (Some (set_edges g es2)) (Some ports2) [])] []"
    by (simp add: flow_graph_to_graphml_def)
  then show ?thesis by blast
qed

lemma from_graphml_shape:
  assumes "flow_graph_from_graphml
             (MultiDiGraph None None [(root, NodeData (Some g) ports as)] []) = Inr g'"
  shows "\<exists>es. g' = set_edges g es"
proof -
  let ?outer = "MultiDiGraph None None [(root, NodeData (Some g) ports as)] []"
  from assms have r: "bind (get_input_node g) (\<lambda>input_node.
             bind (get_output_node g) (\<lambda>output_node.
             bind (del_sourceports input_node (edges g)) (\<lambda>es1.
             bind (del_targetports output_node es1) (\<lambda>es2.
               Inr (set_edges g es2))))) = Inr g'"
    by (simp add: flow_graph_from_graphml_def node_attributes_def)
  then obtain inp where inp: "get_input_node g = Inr inp"
    by (cases "get_input_node g") auto
  from r inp obtain outp where outp: "get_output_node g = Inr outp"
    by (cases "get_output_node g") auto
  from r inp outp obtain es1 where es1: "del_sourceports inp (edges g) = Inr es1"
    by (cases "del_sourceports inp (edges g)") auto
  from r inp outp es1 obtain es2 where es2: "del_targetports outp es1 = Inr es2"
    by (cases "del_targetports outp es1") auto
  from r inp outp es1 es2 show ?thesis by auto
qed

lemma new_flow_graph_eq:
  "new_flow_graph = MultiDiGraph (Some ''__in__'') (Some ''__out__'')
     [(''__in__'', empty_data), (''__out__'', empty_data)] []"
  by (simp add: new_flow_graph_def Let_def add_node_def set_nodes_def update_node_data_def
      empty_data_def dict_update_def)

text \<open>
  C9. The graph of \<open>new_flow_graph\<close> has both sentinels and both accessors, and every
  operation that returns a graph returns one that still has them: \<open>copy_flow_graph\<close>
  into a destination that has them, \<open>flatten\<close> of a graph that is well formed at every
  depth and whose sentinels carry no nested graph, \<open>join\<close> with a first graph that has
  them, and \<open>flow_graph_to_graphml\<close> (with any \<open>outputs\<close>) followed by
  \<open>flow_graph_from_graphml\<close>.
\<close>

theorem sentinels_kept:
  "has_sentinels new_flow_graph \<and>
   (\<forall>source dest dest'. has_sentinels dest \<longrightarrow> copy_flow_graph source dest = Inr dest' \<longrightarrow>
      has_sentinels dest') \<and>
   (\<forall>limit g copy g'. well_formed_deep g \<longrightarrow> plain_sentinels g \<longrightarrow>
      flatten limit g copy = Inr g' \<longrightarrow> has_sentinels g') \<and>
   (\<forall>first second copy g. has_sentinels first \<longrightarrow> join first second copy = Inr g \<longrightarrow>
      has_sentinels g) \<and>
   (\<forall>g outputs outer g'. has_sentinels g \<longrightarrow> flow_graph_to_graphml g outputs = Inr outer \<longrightarrow>
      flow_graph_from_graphml outer = Inr g' \<longrightarrow> has_sentinels g')"
proof (intro conjI allI impI)
  show "has_sentinels new_flow_graph"
    by (simp add: new_flow_graph_eq has_sentinels_def has_node_def)
next
  fix source dest dest'
  assume "has_sentinels dest" "copy_flow_graph source dest = Inr dest'"
  then show "has_sentinels dest'"
    using keeps_nodes_copy_flow_graph keeps_nodes_sentinels by blast
next
  fix limit g copy g'
  assume wf: "well_formed_deep g" and pl: "plain_sentinels g"
    and fl: "flatten limit g copy = Inr g'"
  from flatten_atomic [OF wf fl]
  have io: "graph_input g' = graph_input g" "graph_output g' = graph_output g"
    and at: "\<forall>m. atomic_node g m \<longrightarrow> atomic_node g' m"
    by simp_all
  from pl obtain inp outp where s: "graph_input g = Some inp" "graph_output g = Some outp"
    "atomic_node g inp" "atomic_node g outp"
    by (auto simp add: plain_sentinels_def split: option.splits)
  with at have "atomic_node g' inp" "atomic_node g' outp" by simp_all
  with io s show "has_sentinels g'"
    by (simp add: has_sentinels_def atomic_node_iff)
next
  fix first second copy g
  assume "has_sentinels first" "join first second copy = Inr g"
  then show "has_sentinels g"
    using keeps_nodes_join keeps_nodes_sentinels by blast
next
  fix g outputs outer g'
  assume hs: "has_sentinels g" and t: "flow_graph_to_graphml g outputs = Inr outer"
    and f: "flow_graph_from_graphml outer = Inr g'"
  from to_graphml_shape [OF t] obtain es ports where
    "outer = MultiDiGraph None None
           [(''__root__'', NodeData (Some (set_edges g es)) (Some ports) [])] []"
    by blast
  with f from_graphml_shape obtain es' where "g' = set_edges (set_edges g es) es'"
    by blast
  with hs show "has_sentinels g'"
    by (simp add: has_sentinels_def has_node_def split: option.splits)
qed

lemma copy_example_returns: "\<not> isl (copy_flow_graph consumer_graph example_graph)"
  by code_simp

lemma join_example_returns: "\<not> isl (join example_graph consumer_graph True)"
  by code_simp

lemma round_trip_example_returns:
  "\<not> isl (bind (flow_graph_to_graphml example_graph (Some ''simplify'')) flow_graph_from_graphml)"
  by code_simp

lemma nested_example_plain: "plain_sentinels nested_example"
  by code_simp

lemma example_graph_sentinels: "has_sentinels example_graph"
  by code_simp

theorem sentinels_kept_witness:
  "has_sentinels new_flow_graph \<and>
   has_sentinels example_graph \<and>
   (\<exists>d. copy_flow_graph consumer_graph example_graph = Inr d \<and> has_sentinels d) \<and>
   well_formed_deep nested_example \<and> plain_sentinels nested_example \<and>
   flatten 3 nested_example True = Inr inner_graph \<and> has_sentinels inner_graph \<and>
   (\<exists>g. join example_graph consumer_graph True = Inr g \<and> has_sentinels g) \<and>
   (\<exists>outer g'. flow_graph_to_graphml example_graph (Some ''simplify'') = Inr outer \<and>
      flow_graph_from_graphml outer = Inr g' \<and> has_sentinels g')"
proof -
  note k = sentinels_kept
  from k have new: "has_sentinels new_flow_graph" by blast
  from copy_example_returns obtain d where
    d: "copy_flow_graph consumer_graph example_graph = Inr d"
    by (cases "copy_flow_graph consumer_graph example_graph") auto
  from k example_graph_sentinels d have 1: "has_sentinels d" by blast
  from k nested_example_deep nested_example_plain flatten_nested_example
  have 2: "has_sentinels inner_graph" by blast
  from join_example_returns obtain g where
    g: "join example_graph consumer_graph True = Inr g"
    by (cases "join example_graph consumer_graph True") auto
  from k example_graph_sentinels g have 3: "has_sentinels g" by blast
  from round_trip_example_returns obtain outer where
    o: "flow_graph_to_graphml example_graph (Some ''simplify'') = Inr outer"
    by (cases "flow_graph_to_graphml example_graph (Some ''simplify'')") auto
  with round_trip_example_returns obtain g' where g': "flow_graph_from_graphml outer = Inr g'"
    by (cases "flow_graph_from_graphml outer") auto
  from k example_graph_sentinels o g' have 4: "has_sentinels g'" by blast
  from new example_graph_sentinels d 1 nested_example_deep nested_example_plain
    flatten_nested_example 2 g 3 o g' 4
  show ?thesis by blast
qed

section \<open>\<open>join\<close>\<close>



lemma free_key_fresh:
  "card (set keys \<inter> {k..}) \<le> fuel \<Longrightarrow> free_key keys k fuel \<notin> set keys"
proof (induction fuel arbitrary: k)
  case 0
  then have "set keys \<inter> {k..} = {}" by simp
  then have "k \<notin> set keys" by auto
  then show ?case by simp
next
  case (Suc fuel)
  show ?case
  proof (cases "k \<in> set keys")
    case False
    then show ?thesis by simp
  next
    case True
    have eq: "set keys \<inter> {Suc k..} = (set keys \<inter> {k..}) - {k}" by auto
    have "k \<in> set keys \<inter> {k..}" using True by simp
    then have "card (set keys \<inter> {Suc k..}) = card (set keys \<inter> {k..}) - 1"
      unfolding eq by (simp add: card_Diff_singleton)
    moreover have "card (set keys \<inter> {k..}) > 0"
      using \<open>k \<in> set keys \<inter> {k..}\<close> by (metis card_gt_0_iff empty_iff finite_Int finite_set)
    ultimately have "card (set keys \<inter> {Suc k..}) \<le> fuel" using Suc.prems by simp
    from Suc.IH [OF this] True show ?thesis by simp
  qed
qed

lemma new_edge_key_fresh:
  "new_edge_key g u v \<notin> set (keys_between (edges g) u v)"
proof -
  let ?keys = "keys_between (edges g) u v"
  have "card (set ?keys \<inter> {length ?keys..}) \<le> card (set ?keys)"
    by (rule card_mono) auto
  also have "\<dots> \<le> length ?keys" by (rule card_length)
  finally show ?thesis
    unfolding new_edge_key_def Let_def by (rule free_key_fresh)
qed





















section \<open>What \<open>flatten\<close> leaves of its argument\<close>

text \<open>
  C8 fails for \<open>flatten\<close>. \<open>nested_example\<close> has the node \<open>n\<close>, whose nested graph
  \<open>middle_graph\<close> has the node \<open>m\<close>, whose nested graph is \<open>inner_graph\<close>. The call
  \<open>flatten(nested_example, copy=True)\<close> returns the flat graph, and the argument is no
  longer what it was: the graph stored on its node \<open>n\<close> has been flattened in place, it
  has lost the node \<open>m\<close> and now equals \<open>inner_graph\<close>.
\<close>

theorem flatten_copy_changes_argument:
  "well_formed_deep nested_example \<and>
   flatten 3 nested_example True = Inr inner_graph \<and>
   flatten_argument 3 nested_example True = Inr nested_example_after \<and>
   nested_example_after \<noteq> nested_example \<and>
   nested (the (map_of (nodes nested_example) ''n'')) = Some middle_graph \<and>
   nested (the (map_of (nodes nested_example_after) ''n'')) = Some inner_graph \<and>
   inner_graph \<noteq> middle_graph"
  by code_simp

end
